theory Spec2Isabelle
  imports Complex_Main "HOL-Library.Multiset" "HOL-Library.Sublist" "HOL-Library.Product_Lexorder"
begin

section \<open>JUnit result documents (xml.etree.ElementTree)\<close>

text \<open>
  An element of a parsed result document: its tag, its attributes in document order,
  the text it holds (\<open>None\<close> when it holds none) and its child elements in document
  order.
\<close>

datatype element =
  Element (tag: string) (attrib: "(string \<times> string) list") (etext: "string option")
    (children: "element list")

datatype py_error = ValueError | ZeroDivisionError | AttributeError | PyException

text \<open>
  A Python float: a number, an infinity or not-a-number. Numbers are real numbers here,
  so rounding and overflow are not part of the model. Every comparison with \<open>nan\<close> is
  false; a sum with \<open>nan\<close>, or of the two infinities, is \<open>nan\<close>.
\<close>

datatype pyfloat = Float real | PosInf | NegInf | NaN

fun py_lt :: "pyfloat \<Rightarrow> pyfloat \<Rightarrow> bool" where
  "py_lt NaN y = False"
| "py_lt x NaN = False"
| "py_lt (Float a) (Float b) = (a < b)"
| "py_lt (Float a) PosInf = True"
| "py_lt (Float a) NegInf = False"
| "py_lt PosInf y = False"
| "py_lt NegInf NegInf = False"
| "py_lt NegInf y = True"

fun py_le :: "pyfloat \<Rightarrow> pyfloat \<Rightarrow> bool" where
  "py_le NaN y = False"
| "py_le x NaN = False"
| "py_le (Float a) (Float b) = (a \<le> b)"
| "py_le (Float a) PosInf = True"
| "py_le (Float a) NegInf = False"
| "py_le PosInf PosInf = True"
| "py_le PosInf y = False"
| "py_le NegInf y = True"

fun py_add :: "pyfloat \<Rightarrow> pyfloat \<Rightarrow> pyfloat" where
  "py_add NaN y = NaN"
| "py_add x NaN = NaN"
| "py_add (Float a) (Float b) = Float (a + b)"
| "py_add PosInf NegInf = NaN"
| "py_add NegInf PosInf = NaN"
| "py_add PosInf y = PosInf"
| "py_add x PosInf = PosInf"
| "py_add NegInf y = NegInf"
| "py_add x NegInf = NegInf"

text \<open>\<open>sum(xs)\<close> over floats: the additions from the left, starting from \<open>0\<close>.\<close>

definition py_sum :: "pyfloat list \<Rightarrow> pyfloat" where
  "py_sum xs = foldl py_add (Float 0) xs"

text \<open>\<open>elem.get(key)\<close>: the attribute's value, \<open>None\<close> when the attribute is absent.\<close>

definition get_attr :: "element \<Rightarrow> string \<Rightarrow> string option" where
  "get_attr e k = map_of (attrib e) k"

text \<open>\<open>elem.get(key, default)\<close> with a string default.\<close>

definition get_str :: "element \<Rightarrow> string \<Rightarrow> string \<Rightarrow> string" where
  "get_str e k d = (case get_attr e k of None \<Rightarrow> d | Some s \<Rightarrow> s)"

text \<open>
  \<open>elem.iter()\<close>: the element itself followed by all its descendants, in document order.
\<close>

fun iter :: "element \<Rightarrow> element list" where
  "iter (Element t a x cs) = Element t a x cs # concat (map iter cs)"

text \<open>
  \<open>elem.findall('.//tag')\<close>: every descendant of the element (the element itself excluded)
  that carries the tag, in document order; \<open>elem.find('.//tag')\<close> is the first of them.
\<close>

definition findall_desc :: "string \<Rightarrow> element \<Rightarrow> element list" where
  "findall_desc tg e = filter (\<lambda>c. tag c = tg) (concat (map iter (children e)))"

definition find_desc :: "string \<Rightarrow> element \<Rightarrow> element option" where
  "find_desc tg e = (case findall_desc tg e of [] \<Rightarrow> None | c # _ \<Rightarrow> Some c)"

text \<open>\<open>elem.find('tag')\<close>: the first direct child that carries the tag.\<close>

definition find_child :: "string \<Rightarrow> element \<Rightarrow> element option" where
  "find_child tg e = List.find (\<lambda>c. tag c = tg) (children e)"

section \<open>The result parser (test\_analyzer.py, \<open>parse_junit_xml\<close>)\<close>

text \<open>
  The builtins \<open>int(str)\<close> and \<open>float(str)\<close> are parameters of the parser: a function
  \<open>py_int\<close> giving the integer a string denotes, \<open>None\<close> where \<open>int\<close> raises
  \<open>ValueError\<close>, and likewise \<open>py_float\<close>, which gives a float and so may give an
  infinity or \<open>nan\<close>, as \<open>float('nan')\<close> does.
  \<open>int(elem.get(k, 0))\<close> is \<open>0\<close> when the attribute is absent, since \<open>int(0) = 0\<close> and
  \<open>float(0) = 0.0\<close>.
\<close>

definition int_attr :: "(string \<Rightarrow> int option) \<Rightarrow> element \<Rightarrow> string \<Rightarrow> py_error + int" where
  "int_attr py_int e k =
     (case get_attr e k of
        None \<Rightarrow> Inr 0
      | Some s \<Rightarrow> (case py_int s of None \<Rightarrow> Inl ValueError | Some n \<Rightarrow> Inr n))"

definition float_attr :: "(string \<Rightarrow> pyfloat option) \<Rightarrow> element \<Rightarrow> string \<Rightarrow> py_error + pyfloat" where
  "float_attr py_float e k =
     (case get_attr e k of
        None \<Rightarrow> Inr (Float 0)
      | Some s \<Rightarrow> (case py_float s of None \<Rightarrow> Inl ValueError | Some x \<Rightarrow> Inr x))"

datatype case_status = Passed | Failed | Error | Skipped

text \<open>
  The dictionary built for one test case. The keys \<open>failure\<close>, \<open>error\<close> and \<open>skipped\<close>
  exist only after the matching branch ran (\<open>None\<close> here when the key is absent) and then
  hold the marker's text, which may itself be \<open>None\<close>. The key \<open>suite\<close> is added later by
  the summary report.
\<close>

record case_data =
  classname :: string
  case_name :: string
  case_time :: pyfloat
  status :: case_status
  failure_text :: "string option option"
  error_text :: "string option option"
  skipped_text :: "string option option"
  suite :: "string option"

record suite_data =
  suite_name :: string
  tests :: int
  failures :: int
  errors :: int
  skipped :: int
  suite_time :: pyfloat
  timestamp :: string
  hostname :: string
  testcases :: "case_data list"

definition parse_testcase :: "(string \<Rightarrow> pyfloat option) \<Rightarrow> element \<Rightarrow> py_error + case_data" where
  "parse_testcase py_float testcase =
     (case float_attr py_float testcase ''time'' of
        Inl e \<Rightarrow> Inl e
      | Inr t \<Rightarrow>
          (let case_data = \<lparr>classname = get_str testcase ''classname'' [],
                             case_name = get_str testcase ''name'' [],
                             case_time = t, status = Passed,
                             failure_text = None, error_text = None, skipped_text = None,
                             suite = None\<rparr>
           in Inr (case find_child ''failure'' testcase of
                     Some f \<Rightarrow> case_data\<lparr>status := Failed, failure_text := Some (etext f)\<rparr>
                   | None \<Rightarrow>
                  (case find_child ''error'' testcase of
                     Some f \<Rightarrow> case_data\<lparr>status := Error, error_text := Some (etext f)\<rparr>
                   | None \<Rightarrow>
                  (case find_child ''skipped'' testcase of
                     Some f \<Rightarrow> case_data\<lparr>status := Skipped, skipped_text := Some (etext f)\<rparr>
                   | None \<Rightarrow> case_data)))))"

text \<open>The loop over the test cases; the first exception ends it.\<close>

fun parse_testcases :: "(string \<Rightarrow> pyfloat option) \<Rightarrow> element list \<Rightarrow> py_error + case_data list" where
  "parse_testcases py_float [] = Inr []"
| "parse_testcases py_float (tc # tcs) =
     (case parse_testcase py_float tc of
        Inl e \<Rightarrow> Inl e
      | Inr c \<Rightarrow>
          (case parse_testcases py_float tcs of
             Inl e \<Rightarrow> Inl e
           | Inr cs \<Rightarrow> Inr (c # cs)))"

text \<open>
  Lines 41 to 43: the nested \<open>testsuite\<close> element when there is one, the root otherwise.
\<close>

definition select_testsuite :: "element \<Rightarrow> element" where
  "select_testsuite doc_root =
     (case find_desc ''testsuite'' doc_root of None \<Rightarrow> doc_root | Some testsuite \<Rightarrow> testsuite)"

text \<open>The body of the \<open>try\<close> block, from the parsed root on.\<close>

definition parse_suite ::
  "(string \<Rightarrow> int option) \<Rightarrow> (string \<Rightarrow> pyfloat option) \<Rightarrow> element \<Rightarrow> py_error + suite_data" where
  "parse_suite py_int py_float doc_root =
     (let testsuite = select_testsuite doc_root in
      (case int_attr py_int testsuite ''tests'' of Inl e \<Rightarrow> Inl e | Inr n_tests \<Rightarrow>
      (case int_attr py_int testsuite ''failures'' of Inl e \<Rightarrow> Inl e | Inr n_failures \<Rightarrow>
      (case int_attr py_int testsuite ''errors'' of Inl e \<Rightarrow> Inl e | Inr n_errors \<Rightarrow>
      (case int_attr py_int testsuite ''skipped'' of Inl e \<Rightarrow> Inl e | Inr n_skipped \<Rightarrow>
      (case float_attr py_float testsuite ''time'' of Inl e \<Rightarrow> Inl e | Inr t \<Rightarrow>
      (case parse_testcases py_float (findall_desc ''testcase'' testsuite) of
         Inl e \<Rightarrow> Inl e
       | Inr cases \<Rightarrow>
           Inr \<lparr>suite_name = get_str testsuite ''name'' ''Unknown'',
                tests = n_tests, failures = n_failures, errors = n_errors,
                skipped = n_skipped, suite_time = t,
                timestamp = get_str testsuite ''timestamp'' [],
                hostname = get_str testsuite ''hostname'' [],
                testcases = cases\<rparr>)))))))"

text \<open>
  \<open>parse_junit_xml\<close> catches every exception and returns the empty dictionary then, which
  is \<open>None\<close> here. The argument is the result of \<open>ET.parse\<close>: \<open>None\<close> when the file is
  unreadable or malformed, which raises inside the same \<open>try\<close>.
\<close>

definition parse_junit_xml ::
  "(string \<Rightarrow> int option) \<Rightarrow> (string \<Rightarrow> pyfloat option) \<Rightarrow> element option \<Rightarrow> suite_data option" where
  "parse_junit_xml py_int py_float doc =
     (case doc of
        None \<Rightarrow> None
      | Some doc_root \<Rightarrow>
          (case parse_suite py_int py_float doc_root of Inl e \<Rightarrow> None | Inr s \<Rightarrow> Some s))"

section \<open>Aggregation and reports (test\_analyzer.py)\<close>

text \<open>
  The results dictionary: suite names with their parsed records, in insertion order. A
  value is \<open>None\<close> for the empty dictionary that \<open>parse_junit_xml\<close> returns after an
  exception. \<open>suite.get('tests', 0)\<close> and its siblings read a field, \<open>0\<close> on the empty
  dictionary.
\<close>

type_synonym results = "(string \<times> suite_data option) list"

definition get_tests :: "suite_data option \<Rightarrow> int" where
  "get_tests suite_data = (case suite_data of None \<Rightarrow> 0 | Some s \<Rightarrow> tests s)"

definition get_failures :: "suite_data option \<Rightarrow> int" where
  "get_failures suite_data = (case suite_data of None \<Rightarrow> 0 | Some s \<Rightarrow> failures s)"

definition get_errors :: "suite_data option \<Rightarrow> int" where
  "get_errors suite_data = (case suite_data of None \<Rightarrow> 0 | Some s \<Rightarrow> errors s)"

definition get_skipped :: "suite_data option \<Rightarrow> int" where
  "get_skipped suite_data = (case suite_data of None \<Rightarrow> 0 | Some s \<Rightarrow> skipped s)"

definition get_time :: "suite_data option \<Rightarrow> pyfloat" where
  "get_time suite_data = (case suite_data of None \<Rightarrow> Float 0 | Some s \<Rightarrow> suite_time s)"

text \<open>
  The overall statistics. Lines 110 to 115 of \<open>generate_summary_report\<close> and lines 246 to
  251 of \<open>generate_html_report\<close> are the same six statements.
\<close>

record metrics =
  total_tests :: int
  total_failures :: int
  total_errors :: int
  total_skipped :: int
  total_passed :: int
  total_time :: pyfloat

definition overall_metrics :: "results \<Rightarrow> metrics" where
  "overall_metrics results =
     (let total_tests = sum_list (map get_tests (map snd results));
          total_failures = sum_list (map get_failures (map snd results));
          total_errors = sum_list (map get_errors (map snd results));
          total_skipped = sum_list (map get_skipped (map snd results));
          total_passed = total_tests - total_failures - total_errors - total_skipped;
          total_time = py_sum (map get_time (map snd results))
      in \<lparr>total_tests = total_tests, total_failures = total_failures,
          total_errors = total_errors, total_skipped = total_skipped,
          total_passed = total_passed, total_time = total_time\<rparr>)"

text \<open>
  Line 120 of the text summary: the pass count with its percentage when there are tests,
  the fixed text \<open>Passed: 0\<close> otherwise.
\<close>

datatype passed_line = PassedWithRate int real | PassedZero

definition summary_passed_line :: "results \<Rightarrow> passed_line" where
  "summary_passed_line results =
     (let m = overall_metrics results in
      if total_tests m > 0
      then PassedWithRate (total_passed m)
             (real_of_int (total_passed m) / real_of_int (total_tests m) * 100)
      else PassedZero)"

text \<open>
  Lines 262 to 287 of the HTML report: the pass count and its percentage, with the
  division written unguarded. Dividing an integer by zero raises \<open>ZeroDivisionError\<close>.
\<close>

definition py_truediv :: "int \<Rightarrow> int \<Rightarrow> py_error + real" where
  "py_truediv a b = (if b = 0 then Inl ZeroDivisionError else Inr (real_of_int a / real_of_int b))"

definition html_passed_metric :: "results \<Rightarrow> py_error + int \<times> real" where
  "html_passed_metric results =
     (let m = overall_metrics results in
      case py_truediv (total_passed m) (total_tests m) of
        Inl e \<Rightarrow> Inl e
      | Inr q \<Rightarrow> Inr (total_passed m, q * 100))"


text \<open>
  Lines 162 to 167: the test cases of all non-empty suites in encounter order, each
  tagged with the name of its suite.
\<close>

definition all_testcases :: "results \<Rightarrow> case_data list" where
  "all_testcases results =
     concat (map (\<lambda>suite_data.
                    case suite_data of
                      None \<Rightarrow> []
                    | Some s \<Rightarrow> map (\<lambda>testcase. testcase\<lparr>suite := Some (suite_name s)\<rparr>) (testcases s))
                 (map snd results))"

text \<open>
  \<open>sorted(xs, key=f, reverse=True)\<close>, as \<open>list.sort\<close> of CPython does it, with no
  comparison but \<open><\<close> on the keys. The list is reversed, sorted in ascending order and
  reversed again. The ascending sort takes the run the list begins with (reversed in
  place when it is strictly descending) and puts every further element into the sorted
  part at the place a binary search finds for it. This is the whole of the algorithm on
  lists of fewer than 64 elements; longer lists are cut into such runs and merged, with
  the same result whenever the keys are totally ordered.
\<close>

text \<open>The \<open>do ... while (l < r)\<close> loop of \<open>binarysort\<close>: where the pivot belongs in \<open>xs\<close>.\<close>

function bisect :: "('a \<Rightarrow> 'a \<Rightarrow> bool) \<Rightarrow> 'a \<Rightarrow> 'a list \<Rightarrow> nat \<Rightarrow> nat \<Rightarrow> nat" where
  "bisect lt pivot xs l r =
     (if l < r
      then (let p = l + (r - l) div 2
            in if lt pivot (xs ! p) then bisect lt pivot xs l p
               else bisect lt pivot xs (p + 1) r)
      else l)"
  by pat_completeness auto
termination
  by (relation "measure (\<lambda>(lt, pivot, xs, l, r). r - l)") auto

declare bisect.simps [simp del]

fun binarysort :: "('a \<Rightarrow> 'a \<Rightarrow> bool) \<Rightarrow> 'a list \<Rightarrow> 'a list \<Rightarrow> 'a list" where
  "binarysort lt sorted_part [] = sorted_part"
| "binarysort lt sorted_part (pivot # rest) =
     (let l = bisect lt pivot sorted_part 0 (length sorted_part)
      in binarysort lt (take l sorted_part @ pivot # drop l sorted_part) rest)"

text \<open>
  \<open>count_run\<close>: how many elements after \<open>prev\<close> go on an ascending run (none of them
  less than the one before it) or a descending run (each of them less than the one
  before it).
\<close>

fun run_ascending :: "('a \<Rightarrow> 'a \<Rightarrow> bool) \<Rightarrow> 'a \<Rightarrow> 'a list \<Rightarrow> nat" where
  "run_ascending lt prev [] = 0"
| "run_ascending lt prev (x # xs) = (if lt x prev then 0 else Suc (run_ascending lt x xs))"

fun run_descending :: "('a \<Rightarrow> 'a \<Rightarrow> bool) \<Rightarrow> 'a \<Rightarrow> 'a list \<Rightarrow> nat" where
  "run_descending lt prev [] = 0"
| "run_descending lt prev (x # xs) = (if lt x prev then Suc (run_descending lt x xs) else 0)"

fun count_run :: "('a \<Rightarrow> 'a \<Rightarrow> bool) \<Rightarrow> 'a list \<Rightarrow> nat \<times> bool" where
  "count_run lt [] = (0, False)"
| "count_run lt [x] = (1, False)"
| "count_run lt (x # y # xs) =
     (if lt y x then (2 + run_descending lt y xs, True)
      else (2 + run_ascending lt y xs, False))"

definition list_sort :: "('a \<Rightarrow> 'a \<Rightarrow> bool) \<Rightarrow> 'a list \<Rightarrow> 'a list" where
  "list_sort lt xs =
     (if length xs < 2 then xs
      else (case count_run lt xs of
              (n, descending) \<Rightarrow>
                binarysort lt (if descending then rev (take n xs) else take n xs) (drop n xs)))"

definition sorted_reverse :: "('a \<Rightarrow> pyfloat) \<Rightarrow> 'a list \<Rightarrow> 'a list" where
  "sorted_reverse f xs = rev (list_sort (\<lambda>a b. py_lt (f a) (f b)) (rev xs))"

text \<open>
  Lines 157 to 170: the slowest tests, computed only when there are results and test
  cases (\<open>None\<close> otherwise).
\<close>

definition slowest_tests :: "results \<Rightarrow> case_data list option" where
  "slowest_tests results =
     (if results \<noteq> [] \<and> all_testcases results \<noteq> []
      then Some (take 5 (sorted_reverse case_time (all_testcases results)))
      else None)"

section \<open>The quick status check (quick\_status.py)\<close>

text \<open>
  The truth value of an element is that of its length: an element without children is
  false. Line 41 therefore takes the nested \<open>testsuite\<close> only when it has children.
\<close>

definition truth_value :: "element \<Rightarrow> bool" where
  "truth_value e = (children e \<noteq> [])"

definition quick_testsuite :: "element \<Rightarrow> element" where
  "quick_testsuite doc_root =
     (case find_desc ''testsuite'' doc_root of
        None \<Rightarrow> doc_root
      | Some testsuite \<Rightarrow> if truth_value testsuite then testsuite else doc_root)"

record quick_totals =
  q_total_tests :: int
  q_total_failures :: int
  q_total_errors :: int
  q_total_time :: pyfloat

text \<open>Lines 39 to 51: one file read into the running totals; an exception leaves them.\<close>

definition quick_read ::
  "(string \<Rightarrow> int option) \<Rightarrow> (string \<Rightarrow> pyfloat option) \<Rightarrow> element \<Rightarrow> py_error + int \<times> int \<times> int \<times> pyfloat" where
  "quick_read py_int py_float doc_root =
     (let testsuite = quick_testsuite doc_root in
      (case int_attr py_int testsuite ''tests'' of Inl e \<Rightarrow> Inl e | Inr n_tests \<Rightarrow>
      (case int_attr py_int testsuite ''failures'' of Inl e \<Rightarrow> Inl e | Inr n_failures \<Rightarrow>
      (case int_attr py_int testsuite ''errors'' of Inl e \<Rightarrow> Inl e | Inr n_errors \<Rightarrow>
      (case float_attr py_float testsuite ''time'' of Inl e \<Rightarrow> Inl e | Inr t \<Rightarrow>
         Inr (n_tests, n_failures, n_errors, t))))))"

definition quick_file ::
  "(string \<Rightarrow> int option) \<Rightarrow> (string \<Rightarrow> pyfloat option) \<Rightarrow> quick_totals \<Rightarrow> element option \<Rightarrow> quick_totals" where
  "quick_file py_int py_float acc doc =
     (case doc of
        None \<Rightarrow> acc
      | Some doc_root \<Rightarrow>
          (case quick_read py_int py_float doc_root of
             Inl e \<Rightarrow> acc
           | Inr (n_tests, n_failures, n_errors, t) \<Rightarrow>
               \<lparr>q_total_tests = q_total_tests acc + n_tests,
                q_total_failures = q_total_failures acc + n_failures,
                q_total_errors = q_total_errors acc + n_errors,
                q_total_time = py_add (q_total_time acc) t\<rparr>))"

text \<open>Lines 29 to 65: the loop over the result files.\<close>

definition quick_loop ::
  "(string \<Rightarrow> int option) \<Rightarrow> (string \<Rightarrow> pyfloat option) \<Rightarrow> element option list \<Rightarrow> quick_totals" where
  "quick_loop py_int py_float xml_files =
     foldl (quick_file py_int py_float)
       \<lparr>q_total_tests = 0, q_total_failures = 0, q_total_errors = 0, q_total_time = Float 0\<rparr>
       xml_files"

text \<open>Lines 70 and 71: the pass count and the success rate.\<close>

definition quick_passed :: "quick_totals \<Rightarrow> int" where
  "quick_passed acc = q_total_tests acc - q_total_failures acc - q_total_errors acc"

definition quick_success_rate :: "quick_totals \<Rightarrow> real" where
  "quick_success_rate acc =
     (if q_total_tests acc > 0
      then real_of_int (quick_passed acc) / real_of_int (q_total_tests acc) * 100
      else 0)"

text \<open>\<open>quick_check\<close> returns the exit code.\<close>

definition quick_check ::
  "(string \<Rightarrow> int option) \<Rightarrow> (string \<Rightarrow> pyfloat option) \<Rightarrow> element option list \<Rightarrow> int" where
  "quick_check py_int py_float xml_files =
     (if xml_files = [] then 1
      else
        (let acc = quick_loop py_int py_float xml_files
         in if q_total_failures acc = 0 \<and> q_total_errors acc = 0 then 0 else 1))"
section \<open>The test runner (run\_tests.py)\<close>

subsection \<open>The world outside the runner\<close>

datatype category = CatUnit | CatIntegration | CatApi | CatDocker

datatype mode = ModeAll | ModeUnit | ModeIntegration | ModeApi | ModeDocker

text \<open>
  A decoded JSON value and its truth value in a condition: \<open>None\<close>, \<open>False\<close>, zero and
  the empty string, list and dictionary are false.
\<close>

datatype json =
    JNull | JBool bool | JNumber real | JString string | JArray "json list"
  | JObject "(string \<times> json) list"

fun truthy :: "json \<Rightarrow> bool" where
  "truthy JNull = False"
| "truthy (JBool b) = b"
| "truthy (JNumber x) = (x \<noteq> 0)"
| "truthy (JString s) = (s \<noteq> [])"
| "truthy (JArray xs) = (xs \<noteq> [])"
| "truthy (JObject kvs) = (kvs \<noteq> [])"

text \<open>
  What one \<open>requests.get\<close> on the health endpoint gives: a \<open>RequestException\<close>
  (connection refused, timeout), or a response with its status code and its body, which
  either decodes as JSON or does not.
\<close>

datatype body = InvalidJson | JsonBody json

datatype response = RequestException | HttpResponse int body

text \<open>What \<open>subprocess.run\<close> gives: the exit code, the captured output and the elapsed
  time, or an exception when the process could not be started.\<close>

datatype proc_result = Completed int string string real | SpawnFailed

text \<open>
  What the outside world does in one run: whether \<open>docker.from_env\<close> returns a client,
  whether the daemon answers \<open>ping\<close> and \<open>info\<close>, whether the image builds, whether
  \<open>containers.run\<close> returns a container, whether that container is seen running within
  the 30 seconds of the first loop, whether stopping and removing a container succeeds,
  the answer of the health endpoint to each request of the second loop, and what the
  subprocess of each category gives.
\<close>

record env =
  docker_from_env_ok :: bool
  docker_ok :: bool
  build_ok :: bool
  container_run_ok :: bool
  becomes_running :: bool
  container_stop_ok :: bool
  health :: "nat \<Rightarrow> response"
  suite_proc :: "category \<Rightarrow> proc_result"

text \<open>The calls of the runner's methods and of the outside world, in order.\<close>

datatype event =
    Call_setup_docker | Call_build_docker_image | Call_start_test_container
  | Call_cleanup_container | Call_cleanup_resources | Call_generate_report | Call_save_report
  | Docker_connect | Docker_build | Docker_run | Docker_stop_remove | Docker_remove_existing
  | Docker_remove_image | Docker_status | Http_health nat | Subprocess category

subsection \<open>The state of the runner\<close>

datatype run_status = NotRun | RunPassed | RunFailed | RunError

record outcome =
  run_status :: run_status
  duration :: real
  details :: "(int \<times> string \<times> string) option"

text \<open>
  \<open>self.test_results\<close>: one outcome for each category and the \<open>overall\<close> entry, which has
  a status and no duration.
\<close>

record test_results =
  cat_results :: "category \<Rightarrow> outcome"
  overall_status :: run_status

record runner =
  cleanup :: bool
  verbose :: bool
  docker_client :: bool
  test_container :: bool
  results :: test_results
  trace :: "event list"

definition log_event :: "event \<Rightarrow> runner \<Rightarrow> runner" where
  "log_event ev r = r\<lparr>trace := trace r @ [ev]\<rparr>"

definition init_runner :: "bool \<Rightarrow> bool \<Rightarrow> runner" where
  "init_runner cleanup_flag verbose_flag =
     \<lparr>cleanup = cleanup_flag, verbose = verbose_flag,
      docker_client = False, test_container = False,
      results = \<lparr>cat_results = (\<lambda>c. \<lparr>run_status = NotRun, duration = 0, details = None\<rparr>),
                 overall_status = NotRun\<rparr>,
      trace = []\<rparr>"

subsection \<open>Container lifecycle\<close>

text \<open>
  \<open>setup_docker\<close>: the client is stored as soon as \<open>docker.from_env\<close> returns it; the
  method returns \<open>True\<close> when the daemon then answers \<open>ping\<close> and \<open>info\<close>.
\<close>

definition setup_docker :: "env \<Rightarrow> runner \<Rightarrow> bool \<times> runner" where
  "setup_docker e r =
     (let r = log_event Docker_connect (log_event Call_setup_docker r)
      in if \<not> docker_from_env_ok e then (False, r)
         else (let r = r\<lparr>docker_client := True\<rparr> in (docker_ok e, r)))"

definition build_docker_image :: "env \<Rightarrow> runner \<Rightarrow> bool \<times> runner" where
  "build_docker_image e r =
     (let r = log_event Call_build_docker_image r
      in if docker_client r
         then (build_ok e, log_event Docker_build r)
         else (False, r))"

text \<open>
  \<open>cleanup_container\<close>: the runner's own container is stopped and removed when there is
  one, then any container of the same name; every exception is caught and logged. Without
  a Docker client the second step raises before it reaches Docker.
\<close>

definition cleanup_container :: "env \<Rightarrow> runner \<Rightarrow> runner" where
  "cleanup_container e r =
     (let r = log_event Call_cleanup_container r;
          r = (if test_container r
               then (let r = log_event Docker_stop_remove r
                     in if container_stop_ok e then r\<lparr>test_container := False\<rparr> else r)
               else r)
      in if docker_client r then log_event Docker_remove_existing r else r)"

text \<open>
  One pass of the readiness loop (lines 200 to 208): the response makes the application
  ready, or the loop goes on, or an exception leaves the loop. A body that is not valid
  JSON raises \<open>requests.exceptions.JSONDecodeError\<close>, a \<open>RequestException\<close>, which
  the loop ignores; a JSON value that is not an object has no \<open>get\<close>.
\<close>

datatype check = Ready | Continue | Raise py_error

fun check_health :: "response \<Rightarrow> check" where
  "check_health RequestException = Continue"
| "check_health (HttpResponse status_code b) =
     (if status_code = 200
      then (case b of
              InvalidJson \<Rightarrow> Continue
            | JsonBody (JObject health_data) \<Rightarrow>
                if map_of health_data ''status'' = Some (JString ''healthy'')
                   \<and> (case map_of health_data ''model_loaded'' of None \<Rightarrow> False | Some v \<Rightarrow> truthy v)
                then Ready else Continue
            | JsonBody _ \<Rightarrow> Raise AttributeError)
      else Continue)"

datatype poll_result = AppReady | NotReady | Aborted

fun wait_for_app :: "(nat \<Rightarrow> response) \<Rightarrow> nat list \<Rightarrow> poll_result" where
  "wait_for_app h [] = NotReady"
| "wait_for_app h (attempt # attempts) =
     (case check_health (h attempt) of
        Ready \<Rightarrow> AppReady
      | Continue \<Rightarrow> wait_for_app h attempts
      | Raise _ \<Rightarrow> Aborted)"

text \<open>The requests the loop made: one for each attempt up to the one that ended it.\<close>

fun polled :: "(nat \<Rightarrow> response) \<Rightarrow> nat list \<Rightarrow> nat list" where
  "polled h [] = []"
| "polled h (attempt # attempts) =
     (case check_health (h attempt) of
        Continue \<Rightarrow> attempt # polled h attempts
      | _ \<Rightarrow> [attempt])"

definition start_test_container :: "env \<Rightarrow> runner \<Rightarrow> bool \<times> runner" where
  "start_test_container e r =
     (let r = log_event Call_start_test_container r;
          r = cleanup_container e r
      in if \<not> docker_client r then (False, r)
         else
           (let r = log_event Docker_run r
            in if \<not> container_run_ok e then (False, r)
               else
                 (let r = r\<lparr>test_container := True\<rparr>
                  in if \<not> becomes_running e then (False, r)
                     else
                       (let r = r\<lparr>trace := trace r @ map Http_health (polled (health e) [0..<30])\<rparr>
                        in case wait_for_app (health e) [0..<30] of
                             AppReady \<Rightarrow> (True, r)
                           | NotReady \<Rightarrow> (False, log_event Docker_status r)
                           | Aborted \<Rightarrow> (False, r)))))"

text \<open>
  The fixture \<open>docker_container\<close> of tests/conftest.py (lines 165 to 182): \<open>Inr ()\<close> when
  the loop ends and the container is yielded to the tests, \<open>Inl\<close> the exception raised
  at the last attempt.
\<close>

fun fixture_wait :: "(nat \<Rightarrow> response) \<Rightarrow> nat \<Rightarrow> nat list \<Rightarrow> py_error + unit" where
  "fixture_wait h max_retries [] = Inr ()"
| "fixture_wait h max_retries (i # rest) =
     (if (case h i of RequestException \<Rightarrow> False | HttpResponse status_code b \<Rightarrow> status_code = 200)
      then Inr ()
      else if i = max_retries - 1 then Inl PyException
      else fixture_wait h max_retries rest)"

definition docker_container :: "(nat \<Rightarrow> response) \<Rightarrow> py_error + unit" where
  "docker_container h = fixture_wait h 30 [0..<30]"

subsection \<open>Running the suites\<close>

text \<open>
  \<open>run_unit_tests\<close>, \<open>run_integration_tests\<close>, \<open>run_api_tests\<close> and
  \<open>run_docker_tests\<close> are the same function up to the directory, the marker and the key
  of the results they write.
\<close>

definition set_outcome :: "category \<Rightarrow> (outcome \<Rightarrow> outcome) \<Rightarrow> runner \<Rightarrow> runner" where
  "set_outcome c f r =
     r\<lparr>results := (results r)\<lparr>cat_results := (cat_results (results r))(c := f (cat_results (results r) c))\<rparr>\<rparr>"

definition run_category_tests :: "category \<Rightarrow> env \<Rightarrow> runner \<Rightarrow> bool \<times> runner" where
  "run_category_tests c e r =
     (let r = log_event (Subprocess c) r
      in case suite_proc e c of
           Completed returncode out err d \<Rightarrow>
             (let r = set_outcome c (\<lambda>oc. oc\<lparr>duration := d, details := Some (returncode, out, err)\<rparr>) r
              in if returncode = 0
                 then (True, set_outcome c (\<lambda>oc. oc\<lparr>run_status := RunPassed\<rparr>) r)
                 else (False, set_outcome c (\<lambda>oc. oc\<lparr>run_status := RunFailed\<rparr>) r))
         | SpawnFailed \<Rightarrow> (False, set_outcome c (\<lambda>oc. oc\<lparr>run_status := RunError\<rparr>) r))"

definition run_unit_tests :: "env \<Rightarrow> runner \<Rightarrow> bool \<times> runner" where
  "run_unit_tests = run_category_tests CatUnit"

definition run_integration_tests :: "env \<Rightarrow> runner \<Rightarrow> bool \<times> runner" where
  "run_integration_tests = run_category_tests CatIntegration"

definition run_api_tests :: "env \<Rightarrow> runner \<Rightarrow> bool \<times> runner" where
  "run_api_tests = run_category_tests CatApi"

definition run_docker_tests :: "env \<Rightarrow> runner \<Rightarrow> bool \<times> runner" where
  "run_docker_tests = run_category_tests CatDocker"

definition set_overall :: "bool \<Rightarrow> runner \<Rightarrow> runner" where
  "set_overall success r =
     r\<lparr>results := (results r)\<lparr>overall_status := (if success then RunPassed else RunFailed)\<rparr>\<rparr>"

definition run_all_tests :: "env \<Rightarrow> runner \<Rightarrow> bool \<times> runner" where
  "run_all_tests e r =
     (case setup_docker e r of (ok, r) \<Rightarrow>
      if \<not> ok then (False, r) else
     (case build_docker_image e r of (ok, r) \<Rightarrow>
      if \<not> ok then (False, r) else
     (case start_test_container e r of (ok, r) \<Rightarrow>
      if \<not> ok then (False, r) else
     (let success = True in
      case run_unit_tests e r of (ok, r) \<Rightarrow>
      (let success = (if \<not> ok then False else success) in
       case run_integration_tests e r of (ok, r) \<Rightarrow>
       (let success = (if \<not> ok then False else success) in
        case run_api_tests e r of (ok, r) \<Rightarrow>
        (let success = (if \<not> ok then False else success) in
         case run_docker_tests e r of (ok, r) \<Rightarrow>
         (let success = (if \<not> ok then False else success)
          in (success, set_overall success r)))))))))"

definition run_specific_tests :: "mode \<Rightarrow> env \<Rightarrow> runner \<Rightarrow> bool \<times> runner" where
  "run_specific_tests m e r =
     (if m = ModeUnit
      then (case run_unit_tests e r of (success, r) \<Rightarrow> (success, set_overall success r))
      else if m \<in> {ModeIntegration, ModeApi, ModeDocker}
      then
        (case setup_docker e r of (ok, r) \<Rightarrow>
         if \<not> ok then (False, r) else
        (case build_docker_image e r of (ok, r) \<Rightarrow>
         if \<not> ok then (False, r) else
        (case start_test_container e r of (ok, r) \<Rightarrow>
         if \<not> ok then (False, r) else
        (case (if m = ModeIntegration then run_integration_tests e r
               else if m = ModeApi then run_api_tests e r
               else run_docker_tests e r) of
           (success, r) \<Rightarrow> (success, set_overall success r)))))
      else (True, set_overall True r))"

subsection \<open>Report and cleanup\<close>

text \<open>
  \<open>self.test_results.items()\<close> in insertion order, each entry with its status and, when
  it has one, its duration.
\<close>

definition items :: "test_results \<Rightarrow> (string \<times> run_status \<times> real option) list" where
  "items tr =
     [(''unit'', run_status (cat_results tr CatUnit), Some (duration (cat_results tr CatUnit))),
      (''integration'', run_status (cat_results tr CatIntegration),
         Some (duration (cat_results tr CatIntegration))),
      (''api'', run_status (cat_results tr CatApi), Some (duration (cat_results tr CatApi))),
      (''docker'', run_status (cat_results tr CatDocker), Some (duration (cat_results tr CatDocker))),
      (''overall'', overall_status tr, None)]"

record report =
  banner :: string
  total_duration :: real
  passed_tests :: "string list"
  failed_tests :: "string list"
  error_tests :: "string list"

definition generate_report :: "test_results \<Rightarrow> report" where
  "generate_report tr =
     (let total_duration = sum_list (map (\<lambda>(name, st, d). case d of None \<Rightarrow> 0 | Some x \<Rightarrow> x) (items tr));
          passed_tests = map fst (filter (\<lambda>(name, st, d). st = RunPassed) (items tr));
          failed_tests = map fst (filter (\<lambda>(name, st, d). st = RunFailed) (items tr));
          error_tests = map fst (filter (\<lambda>(name, st, d). st = RunError) (items tr))
      in \<lparr>banner = (if failed_tests = [] \<and> error_tests = [] then ''PASSED'' else ''FAILED''),
          total_duration = total_duration,
          passed_tests = passed_tests, failed_tests = failed_tests, error_tests = error_tests\<rparr>)"

definition cleanup_resources :: "env \<Rightarrow> runner \<Rightarrow> runner" where
  "cleanup_resources e r =
     (let r = log_event Call_cleanup_resources r
      in if \<not> cleanup r then r
         else
           (let r = cleanup_container e r
            in if docker_client r then log_event Docker_remove_image r else r))"

text \<open>
  \<open>main\<close>: the runner is created with \<open>cleanup = not args.no_cleanup\<close>, runs the mode,
  prints and saves the report and exits with the code; the \<open>finally\<close> clause calls
  \<open>cleanup_resources\<close> before the process ends. The result is the exit code, the report
  and the final state of the runner.
\<close>

definition main :: "mode \<Rightarrow> bool \<Rightarrow> bool \<Rightarrow> env \<Rightarrow> int \<times> report \<times> runner" where
  "main m no_cleanup verbose_flag e =
     (let runner = init_runner (\<not> no_cleanup) verbose_flag
      in case (if m = ModeAll then run_all_tests e runner else run_specific_tests m e runner) of
           (success, runner) \<Rightarrow>
             (let runner = log_event Call_generate_report runner;
                  rep = generate_report (results runner);
                  runner = log_event Call_save_report runner;
                  exit_code = (if success then 0 else 1);
                  runner = cleanup_resources e runner
              in (exit_code, rep, runner)))"

section \<open>Properties of the program and example inputs\<close>

subsection \<open>Result documents\<close>

text \<open>A test case element has a child marker with the given tag.\<close>

definition has_marker :: "string \<Rightarrow> element \<Rightarrow> bool" where
  "has_marker tg tc = list_ex (\<lambda>c. tag c = tg) (children tc)"

text \<open>
  The status the priority order failure, error, skipped, passed gives to a test case
  element.
\<close>

definition marker_status :: "element \<Rightarrow> case_status" where
  "marker_status tc =
     (if has_marker ''failure'' tc then Failed
      else if has_marker ''error'' tc then Error
      else if has_marker ''skipped'' tc then Skipped
      else Passed)"





text \<open>
  The builtins on the strings of the examples: \<open>int('5') = 5\<close>, \<open>float('0.5') = 0.5\<close>,
  \<open>float('nan')\<close> and so on; every other string is taken to raise.
\<close>

definition ex_int :: "string \<Rightarrow> int option" where
  "ex_int = map_of [(''0'', 0), (''1'', 1), (''2'', 2), (''3'', 3), (''5'', 5)]"

definition ex_float :: "string \<Rightarrow> pyfloat option" where
  "ex_float =
     map_of [(''0.1'', Float (1 / 10)), (''0.3'', Float (3 / 10)), (''0.5'', Float (1 / 2)),
             (''1.5'', Float (3 / 2)), (''inf'', PosInf), (''nan'', NaN)]"








text \<open>
  What pytest writes when it collected no test:
  \<^verbatim>\<open><testsuites><testsuite name="pytest" tests="0" failures="0" errors="0" skipped="0"/></testsuites>\<close>
\<close>

definition doc_no_tests :: element where
  "doc_no_tests =
     Element ''testsuites'' [] None
       [Element ''testsuite'' [(''name'', ''pytest''), (''tests'', ''0''), (''failures'', ''0''),
          (''errors'', ''0''), (''skipped'', ''0'')] None []]"

definition results_no_tests :: results where
  "results_no_tests = [(''unit'', parse_junit_xml ex_int ex_float (Some doc_no_tests))]"

text \<open>
  \<^verbatim>\<open><testsuites><testsuite tests="3" failures="1"/></testsuites>\<close>: the nested suite
  carries the counts and lists no test case.
\<close>

definition doc_childless :: element where
  "doc_childless =
     Element ''testsuites'' [] None
       [Element ''testsuite'' [(''tests'', ''3''), (''failures'', ''1'')] None []]"

text \<open>A suite whose four test cases carry each combination the priority order decides.\<close>

definition doc_markers :: element where
  "doc_markers =
     Element ''testsuite'' [(''name'', ''pytest''), (''tests'', ''5'')] None
       [Element ''testcase'' [(''name'', ''a'')] None
          [Element ''skipped'' [] None [], Element ''error'' [] None [],
           Element ''failure'' [] (Some ''boom'') []],
        Element ''testcase'' [(''name'', ''b'')] None
          [Element ''skipped'' [] None [], Element ''error'' [] (Some ''bad'') []],
        Element ''testcase'' [(''name'', ''c'')] None [Element ''skipped'' [] None []],
        Element ''testcase'' [(''name'', ''d'')] None [Element ''system-out'' [] None []]]"


text \<open>
  Two suites whose test cases take 0.1, 0.5, 0.3 and again 0.5 and 0.1 seconds, in this
  order of encounter.
\<close>

definition doc_times_1 :: element where
  "doc_times_1 =
     Element ''testsuite'' [(''name'', ''first'')] None
       [Element ''testcase'' [(''name'', ''a''), (''time'', ''0.1'')] None [],
        Element ''testcase'' [(''name'', ''b''), (''time'', ''0.5'')] None [],
        Element ''testcase'' [(''name'', ''c''), (''time'', ''0.3'')] None []]"

definition doc_times_2 :: element where
  "doc_times_2 =
     Element ''testsuite'' [(''name'', ''second'')] None
       [Element ''testcase'' [(''name'', ''d''), (''time'', ''0.5'')] None [],
        Element ''testcase'' [(''name'', ''e''), (''time'', ''0.1'')] None []]"

definition results_times :: results where
  "results_times =
     [(''unit'', parse_junit_xml ex_int ex_float (Some doc_times_1)),
      (''api'', parse_junit_xml ex_int ex_float (Some doc_times_2))]"

definition results_spec_times :: results where
  "results_spec_times = [(''unit'', parse_junit_xml ex_int ex_float (Some doc_times_1))]"

text \<open>
  A suite whose test cases have the times 0.3, \<open>nan\<close> and 0.5:
  \<^verbatim>\<open><testcase name="b" time="nan"/>\<close> is a test case the parser accepts.
\<close>

definition doc_nan :: element where
  "doc_nan =
     Element ''testsuite'' [(''name'', ''pytest'')] None
       [Element ''testcase'' [(''name'', ''a''), (''time'', ''0.3'')] None [],
        Element ''testcase'' [(''name'', ''b''), (''time'', ''nan'')] None [],
        Element ''testcase'' [(''name'', ''c''), (''time'', ''0.5'')] None []]"

definition results_nan :: results where
  "results_nan = [(''unit'', parse_junit_xml ex_int ex_float (Some doc_nan))]"

text \<open>
  The floats that are not \<open>nan\<close> in their order, as values of a linear order: \<open><\<close> on
  them is \<open><\<close> on their keys.
\<close>

fun float_key :: "pyfloat \<Rightarrow> int \<times> real" where
  "float_key (Float a) = (0, a)"
| "float_key PosInf = (1, 0)"
| "float_key NegInf = (- 1, 0)"
| "float_key NaN = (2, 0)"

text \<open>No elapsed time among the test cases is \<open>nan\<close>.\<close>

definition no_nan :: "case_data list \<Rightarrow> bool" where
  "no_nan cases = list_all (\<lambda>c. case_time c \<noteq> NaN) cases"

text \<open>
  A list of test cases is in descending order of elapsed time: each is \<open>>=\<close> every later
  one. It is out of order when a test case is \<open><\<close> a later one.
\<close>

definition descending :: "case_data list \<Rightarrow> bool" where
  "descending cases = sorted_wrt (\<lambda>a b. py_le (case_time b) (case_time a)) cases"

definition out_of_order :: "case_data list \<Rightarrow> bool" where
  "out_of_order cases =
     list_ex (\<lambda>(i, j). i < j \<and> py_lt (case_time (cases ! i)) (case_time (cases ! j)))
       (List.product [0..<length cases] [0..<length cases])"

subsection \<open>Readiness\<close>

text \<open>
  What a health response says: its status code is 200, its body is an object whose
  \<open>status\<close> is \<open>"healthy"\<close>, its body is an object whose \<open>model_loaded\<close> is true.
\<close>

definition http_success :: "response \<Rightarrow> bool" where
  "http_success resp = (case resp of RequestException \<Rightarrow> False | HttpResponse code b \<Rightarrow> code = 200)"

definition body_field :: "response \<Rightarrow> string \<Rightarrow> json option" where
  "body_field resp k =
     (case resp of
        HttpResponse code (JsonBody (JObject kvs)) \<Rightarrow> map_of kvs k
      | _ \<Rightarrow> None)"

definition reports_healthy :: "response \<Rightarrow> bool" where
  "reports_healthy resp = (body_field resp ''status'' = Some (JString ''healthy''))"

definition model_loaded :: "response \<Rightarrow> bool" where
  "model_loaded resp = (case body_field resp ''model_loaded'' of None \<Rightarrow> False | Some v \<Rightarrow> truthy v)"

text \<open>
  The service answers every request with status 200 and
  \<^verbatim>\<open>{"status": "healthy", "model_loaded": false}\<close>.
\<close>

definition health_not_loaded :: "nat \<Rightarrow> response" where
  "health_not_loaded attempt =
     HttpResponse 200 (JsonBody (JObject [(''status'', JString ''healthy''), (''model_loaded'', JBool False)]))"

text \<open>The service refuses twice and then answers with the model loaded.\<close>

definition health_loaded_later :: "nat \<Rightarrow> response" where
  "health_loaded_later attempt =
     (if attempt < 2 then RequestException
      else HttpResponse 200
             (JsonBody (JObject [(''status'', JString ''healthy''), (''model_loaded'', JBool True)])))"

subsection \<open>Runs\<close>

definition cleanup_calls :: "event list \<Rightarrow> nat" where
  "cleanup_calls evs = length (filter (\<lambda>ev. ev = Call_cleanup_resources) evs)"

definition suites_run :: "event list \<Rightarrow> category list" where
  "suites_run evs = concat (map (\<lambda>ev. case ev of Subprocess c \<Rightarrow> [c] | _ \<Rightarrow> []) evs)"

text \<open>The events that set Docker up, build the image, start the container or talk to either.\<close>

fun uses_docker :: "event \<Rightarrow> bool" where
  "uses_docker (Subprocess c) = False"
| "uses_docker Call_generate_report = False"
| "uses_docker Call_save_report = False"
| "uses_docker Call_cleanup_resources = False"
| "uses_docker Call_cleanup_container = False"
| "uses_docker ev = True"

definition setup_ok :: "env \<Rightarrow> bool" where
  "setup_ok e = (docker_from_env_ok e \<and> docker_ok e \<and> build_ok e \<and> container_run_ok e \<and> becomes_running e
      \<and> wait_for_app (health e) [0..<30] = AppReady)"

definition all_categories :: "category list" where
  "all_categories = [CatUnit, CatIntegration, CatApi, CatDocker]"




text \<open>Docker works and the image builds, but the service never answers.\<close>

definition env_never_ready :: env where
  "env_never_ready =
     \<lparr>docker_from_env_ok = True, docker_ok = True, build_ok = True, container_run_ok = True, becomes_running = True,
      container_stop_ok = True, health = (\<lambda>attempt. RequestException),
      suite_proc = (\<lambda>c. Completed 0 [] [] 1)\<rparr>"

text \<open>No Docker daemon; the unit tests would fail with exit code 1.\<close>

definition env_no_docker :: env where
  "env_no_docker =
     \<lparr>docker_from_env_ok = True, docker_ok = False, build_ok = False, container_run_ok = False, becomes_running = False,
      container_stop_ok = False, health = (\<lambda>attempt. RequestException),
      suite_proc = (\<lambda>c. Completed 1 [] [] 2)\<rparr>"

section \<open>The result parser\<close>

lemma has_marker_find: "has_marker tg e \<longleftrightarrow> find_child tg e \<noteq> None"
  by (auto simp: find_child_def has_marker_def find_None_iff list_ex_iff)

lemma parse_testcase_status:
  "parse_testcase py_float tc = Inr cd \<Longrightarrow> status cd = marker_status tc"
  unfolding parse_testcase_def marker_status_def
  by (auto simp: Let_def has_marker_find split: sum.splits option.splits)

lemma parse_testcases_status:
  "parse_testcases py_float tcs = Inr cds \<Longrightarrow> map status cds = map marker_status tcs"
  by (induction tcs arbitrary: cds) (auto split: sum.splits dest: parse_testcase_status)

lemma parse_suite_testcases:
  "parse_suite py_int py_float r = Inr sd \<Longrightarrow>
     parse_testcases py_float (findall_desc ''testcase'' (select_testsuite r)) = Inr (testcases sd)"
  unfolding parse_suite_def
  by (auto simp: Let_def split: sum.splits)

lemma parse_junit_xml_Some:
  "parse_junit_xml py_int py_float (Some r) = Some sd \<longleftrightarrow> parse_suite py_int py_float r = Inr sd"
  by (simp add: parse_junit_xml_def split: sum.splits)

text \<open>
  C3. Every test case of a parsed result file gets the one status that the first
  matching child marker gives in the order failure, error, skipped, and passed when it
  has none of the three; a test case with a failure child is failed whatever its other
  children are.
\<close>

theorem C3_case_status:
  assumes "parse_junit_xml py_int py_float (Some r) = Some sd"
  shows "map status (testcases sd)
           = map marker_status (findall_desc ''testcase'' (select_testsuite r))
         \<and> (\<forall>i < length (testcases sd).
               has_marker ''failure'' (findall_desc ''testcase'' (select_testsuite r) ! i)
               \<longrightarrow> status (testcases sd ! i) = Failed)"
proof -
  let ?tcs = "findall_desc ''testcase'' (select_testsuite r)"
  from assms have "parse_suite py_int py_float r = Inr sd"
    by (simp add: parse_junit_xml_Some)
  then have "parse_testcases py_float ?tcs = Inr (testcases sd)"
    by (rule parse_suite_testcases)
  then have eq: "map status (testcases sd) = map marker_status ?tcs"
    by (rule parse_testcases_status)
  have "status (testcases sd ! i) = Failed"
    if "i < length (testcases sd)" "has_marker ''failure'' (?tcs ! i)" for i
  proof -
    from eq have "length (testcases sd) = length ?tcs"
      by (rule map_eq_imp_length_eq)
    with that(1) have "map status (testcases sd) ! i = status (testcases sd ! i)"
      "map marker_status ?tcs ! i = marker_status (?tcs ! i)"
      by simp_all
    with eq that(2) show ?thesis by (simp add: marker_status_def)
  qed
  with eq show ?thesis by blast
qed

theorem C3_case_status_witness:
  "parse_junit_xml ex_int ex_float (Some doc_markers) \<noteq> None
   \<and> map status (testcases (the (parse_junit_xml ex_int ex_float (Some doc_markers))))
       = [Failed, Error, Skipped, Passed]"
proof -
  have ne: "parse_junit_xml ex_int ex_float (Some doc_markers) \<noteq> None"
    by code_simp
  then have h: "parse_junit_xml ex_int ex_float (Some doc_markers)
                  = Some (the (parse_junit_xml ex_int ex_float (Some doc_markers)))"
    by simp
  have "map marker_status (findall_desc ''testcase'' (select_testsuite doc_markers))
          = [Failed, Error, Skipped, Passed]"
    by code_simp
  with C3_case_status [OF h] ne show ?thesis by simp
qed









section \<open>Which element is the suite\<close>

lemma iter_head: "iter e = e # concat (map iter (children e))"
  by (cases e) simp

lemma select_testsuite_nested:
  "findall_desc ''testsuite'' r = ts # rest \<Longrightarrow> select_testsuite r = ts"
  by (simp add: select_testsuite_def find_desc_def)

lemma select_testsuite_bare:
  "findall_desc ''testsuite'' r = [] \<Longrightarrow> select_testsuite r = r"
  by (simp add: select_testsuite_def find_desc_def)

lemma size_iter: "d \<in> set (iter e) \<Longrightarrow> size d \<le> size e"
proof (induction e arbitrary: d)
  case (Element t a x cs)
  show ?case
  proof (cases "d = Element t a x cs")
    case True
    then show ?thesis by simp
  next
    case False
    with Element.prems obtain c where c: "c \<in> set cs" "d \<in> set (iter c)"
      by auto
    then have "size d \<le> size c"
      by (rule Element.IH)
    moreover from c(1) have "size c \<le> size_list size cs"
      by (simp add: size_list_estimation')
    ultimately show ?thesis by simp
  qed
qed

lemma descendant_smaller:
  assumes "d \<in> set (concat (map iter (children e)))"
  shows "size d < size e"
proof -
  from assms obtain c where c: "c \<in> set (children e)" "d \<in> set (iter c)"
    by auto
  then have "size d \<le> size c"
    by (simp add: size_iter)
  moreover from c(1) have "size c < size e"
    by (cases e) (simp add: size_list_estimation' less_Suc_eq_le)
  ultimately show ?thesis by simp
qed

text \<open>
  In \<open>parse_junit_xml\<close> the suite is the root exactly when the root has no nested
  \<open>testsuite\<close> element.
\<close>

lemma select_testsuite_root_iff:
  "select_testsuite r = r \<longleftrightarrow> findall_desc ''testsuite'' r = []"
proof
  assume eq: "select_testsuite r = r"
  show "findall_desc ''testsuite'' r = []"
  proof (cases "findall_desc ''testsuite'' r")
    case Nil
    then show ?thesis .
  next
    case (Cons ts rest)
    then have "select_testsuite r = ts"
      by (rule select_testsuite_nested)
    moreover from Cons have "ts \<in> set (concat (map iter (children r)))"
      by (metis filter_is_subset findall_desc_def list.set_intros(1) subsetD)
    then have "size ts < size r"
      by (rule descendant_smaller)
    ultimately show ?thesis using eq by simp
  qed
next
  assume "findall_desc ''testsuite'' r = []"
  then show "select_testsuite r = r"
    by (rule select_testsuite_bare)
qed

text \<open>
  In \<open>parse_junit_xml\<close> a suite wrapped in a root element and the same suite as the root
  give the same record.
\<close>

lemma parse_wrapped_eq_bare:
  assumes "tag s = ''testsuite''" "findall_desc ''testsuite'' s = []"
  shows "parse_junit_xml py_int py_float (Some (Element w a x [s]))
           = parse_junit_xml py_int py_float (Some s)"
proof -
  have "findall_desc ''testsuite'' (Element w a x [s]) = [s]"
    using assms by (simp add: findall_desc_def iter_head [of s])
  then have "select_testsuite (Element w a x [s]) = s"
    by (rule select_testsuite_nested)
  moreover have "select_testsuite s = s"
    using assms(2) by (rule select_testsuite_bare)
  ultimately show ?thesis
    by (simp add: parse_junit_xml_def parse_suite_def)
qed

text \<open>
  \<open>quick_check\<close> takes the nested suite only when that element has children of its own.
\<close>

lemma quick_testsuite_nested:
  "findall_desc ''testsuite'' r = ts # rest \<Longrightarrow>
     quick_testsuite r = (if children ts = [] then r else ts)"
  by (simp add: quick_testsuite_def find_desc_def truth_value_def)

text \<open>
  C4. The suite is the nested \<open>testsuite\<close> element whenever there is one, so that a
  wrapped and a bare suite read alike. In \<open>quick_check\<close> it is not: for the file
  \<^verbatim>\<open><testsuites><testsuite tests="3" failures="1"/></testsuites>\<close> the nested element exists
  and \<open>parse_junit_xml\<close> reads three tests and one failure from it, while \<open>quick_check\<close>
  reads the root, counts no test and no failure, and returns exit code 0; the same suite
  as the root of its file is read with its three tests and its failure.
\<close>

theorem C4_quick_check_reads_root_beside_nested_suite:
  "find_desc ''testsuite'' doc_childless
     = Some (Element ''testsuite'' [(''tests'', ''3''), (''failures'', ''1'')] None [])
   \<and> select_testsuite doc_childless
     = Element ''testsuite'' [(''tests'', ''3''), (''failures'', ''1'')] None []
   \<and> map_option tests (parse_junit_xml ex_int ex_float (Some doc_childless)) = Some 3
   \<and> map_option failures (parse_junit_xml ex_int ex_float (Some doc_childless)) = Some 1
   \<and> quick_testsuite doc_childless = doc_childless
   \<and> quick_read ex_int ex_float doc_childless = Inr (0, 0, 0, Float 0)
   \<and> quick_read ex_int ex_float
         (Element ''testsuite'' [(''tests'', ''3''), (''failures'', ''1'')] None [])
       = Inr (3, 1, 0, Float 0)
   \<and> quick_check ex_int ex_float [Some doc_childless] = 0"
  by code_simp

section \<open>Aggregation\<close>









text \<open>
  The success rate. The text summary and the quick status check divide only when the
  total is positive; the HTML report divides always, and raises exactly when the total
  is zero.
\<close>

lemma summary_rate_guarded:
  "summary_passed_line rs =
     (if 0 < total_tests (overall_metrics rs)
      then PassedWithRate (total_passed (overall_metrics rs))
             (real_of_int (total_passed (overall_metrics rs))
                / real_of_int (total_tests (overall_metrics rs)) * 100)
      else PassedZero)"
  by (simp add: summary_passed_line_def Let_def)

lemma quick_rate_zero: "q_total_tests acc \<le> 0 \<Longrightarrow> quick_success_rate acc = 0"
  by (simp add: quick_success_rate_def)

lemma html_rate_raises:
  "html_passed_metric rs = Inl ZeroDivisionError \<longleftrightarrow> total_tests (overall_metrics rs) = 0"
  by (simp add: html_passed_metric_def py_truediv_def Let_def)

lemma html_rate_value:
  "total_tests (overall_metrics rs) \<noteq> 0 \<Longrightarrow>
     html_passed_metric rs =
       Inr (total_passed (overall_metrics rs),
            real_of_int (total_passed (overall_metrics rs))
              / real_of_int (total_tests (overall_metrics rs)) * 100)"
  by (simp add: html_passed_metric_def py_truediv_def Let_def)

text \<open>
  C2. No report divides by zero, and the rate is 0 when there are no tests. The HTML
  report does divide by zero: for the result file pytest writes when it collected no
  test, the text summary prints its line without a rate and the quick status check has
  rate 0, but \<open>generate_html_report\<close> raises \<open>ZeroDivisionError\<close>.
\<close>

theorem C2_html_report_divides_by_zero:
  "total_tests (overall_metrics results_no_tests) = 0
   \<and> summary_passed_line results_no_tests = PassedZero
   \<and> quick_success_rate (quick_loop ex_int ex_float [Some doc_no_tests]) = 0
   \<and> html_passed_metric results_no_tests = Inl ZeroDivisionError"
  by code_simp

section \<open>The slowest tests\<close>

text \<open>
  The sort, for a comparison \<open>lt\<close> that is the order \<open><\<close> of keys \<open>g\<close> in a linear order:
  the binary search finds the place after the elements that are not greater than the
  pivot, the insertions keep the sorted part sorted and equal keys in their order, and
  the run the list begins with is sorted once it is reversed where it descends.
\<close>

lemma bisect_spec:
  fixes g :: "'a \<Rightarrow> 'k::linorder"
  assumes "sorted (map g xs)"
    and "\<And>x. x \<in> set xs \<Longrightarrow> lt pivot x \<longleftrightarrow> g pivot < g x"
    and "l \<le> r" "r \<le> length xs"
    and "\<forall>i < l. g (xs ! i) \<le> g pivot"
    and "\<forall>i. r \<le> i \<and> i < length xs \<longrightarrow> g pivot < g (xs ! i)"
  shows "bisect lt pivot xs l r \<le> length xs
    \<and> (\<forall>i < bisect lt pivot xs l r. g (xs ! i) \<le> g pivot)
    \<and> (\<forall>i. bisect lt pivot xs l r \<le> i \<and> i < length xs \<longrightarrow> g pivot < g (xs ! i))"
  using assms
proof (induction lt pivot xs l r rule: bisect.induct)
  case (1 lt pivot xs l r)
  show ?case
  proof (cases "l < r")
    case False
    with "1.prems" have "l = r" by simp
    with "1.prems" show ?thesis by (simp add: bisect.simps [of lt pivot xs r r])
  next
    case True
    define p where "p = l + (r - l) div 2"
    from True have lp: "l \<le> p" and pr: "p < r"
      by (simp_all add: p_def) 
    from pr "1.prems"(4) have plen: "p < length xs" by simp
    then have pin: "xs ! p \<in> set xs" by simp
    show ?thesis
    proof (cases "lt pivot (xs ! p)")
      case lt: True
      with "1.prems"(2) pin have gp: "g pivot < g (xs ! p)" by blast
      have up: "\<forall>i. p \<le> i \<and> i < length xs \<longrightarrow> g pivot < g (xs ! i)"
      proof (intro allI impI)
        fix i assume i: "p \<le> i \<and> i < length xs"
        with "1.prems"(1) have "g (xs ! p) \<le> g (xs ! i)"
          by (simp add: sorted_iff_nth_mono)
        with gp show "g pivot < g (xs ! i)" by simp
      qed
      have eq: "bisect lt pivot xs l r = bisect lt pivot xs l p"
        using True lt by (subst bisect.simps) (simp add: p_def Let_def)
      have "bisect lt pivot xs l p \<le> length xs
        \<and> (\<forall>i < bisect lt pivot xs l p. g (xs ! i) \<le> g pivot)
        \<and> (\<forall>i. bisect lt pivot xs l p \<le> i \<and> i < length xs \<longrightarrow> g pivot < g (xs ! i))"
        using "1.IH"(1) [OF True p_def lt "1.prems"(1) "1.prems"(2) lp _ "1.prems"(5) up] plen
        by simp
      with eq show ?thesis by simp
    next
      case nlt: False
      with "1.prems"(2) pin have gp: "g (xs ! p) \<le> g pivot" by auto
      have low: "\<forall>i < p + 1. g (xs ! i) \<le> g pivot"
      proof (intro allI impI)
        fix i assume i: "i < p + 1"
        with "1.prems"(1) plen have "g (xs ! i) \<le> g (xs ! p)"
          by (simp add: sorted_iff_nth_mono)
        with gp show "g (xs ! i) \<le> g pivot" by simp
      qed
      have eq: "bisect lt pivot xs l r = bisect lt pivot xs (p + 1) r"
        using True nlt by (subst bisect.simps) (simp add: p_def Let_def)
      have "bisect lt pivot xs (p + 1) r \<le> length xs
        \<and> (\<forall>i < bisect lt pivot xs (p + 1) r. g (xs ! i) \<le> g pivot)
        \<and> (\<forall>i. bisect lt pivot xs (p + 1) r \<le> i \<and> i < length xs \<longrightarrow> g pivot < g (xs ! i))"
        using "1.IH"(2) [OF True p_def nlt "1.prems"(1) "1.prems"(2) _ "1.prems"(4) low "1.prems"(6)] pr
        by simp
      with eq show ?thesis by simp
    qed
  qed
qed


lemma insert_at_spec:
  fixes g :: "'a \<Rightarrow> 'k::linorder"
  assumes srt: "sorted (map g pre)"
    and m: "m \<le> length pre"
    and low: "\<forall>i < m. g (pre ! i) \<le> g pivot"
    and up: "\<forall>i. m \<le> i \<and> i < length pre \<longrightarrow> g pivot < g (pre ! i)"
  shows "sorted (map g (take m pre @ pivot # drop m pre))"
    and "mset (take m pre @ pivot # drop m pre) = add_mset pivot (mset pre)"
    and "filter (\<lambda>y. g y = k) (take m pre @ pivot # drop m pre) = filter (\<lambda>y. g y = k) (pre @ [pivot])"
proof -
  have t: "g x \<le> g pivot" if "x \<in> set (take m pre)" for x
  proof -
    from that obtain i where "i < length (take m pre)" "x = take m pre ! i"
      by (auto simp: in_set_conv_nth)
    with low show ?thesis by simp
  qed
  have d: "g pivot < g x" if "x \<in> set (drop m pre)" for x
  proof -
    from that obtain i where i: "i < length (drop m pre)" "x = drop m pre ! i"
      by (auto simp: in_set_conv_nth)
    then have "x = pre ! (m + i)" "m + i < length pre"
      using m by simp_all
    with up show ?thesis by simp
  qed
  from srt have "sorted (map g (take m pre @ drop m pre))" by simp
  then have st: "sorted (map g (take m pre))" and sd: "sorted (map g (drop m pre))"
    and td: "\<forall>x \<in> set (take m pre). \<forall>y \<in> set (drop m pre). g x \<le> g y"
    unfolding map_append sorted_append by auto
  show "sorted (map g (take m pre @ pivot # drop m pre))"
    unfolding map_append sorted_append using st sd td t d by (auto simp: less_imp_le)
  have "mset (take m pre) + mset (drop m pre) = mset pre"
    by (metis append_take_drop_id mset_append)
  then show "mset (take m pre @ pivot # drop m pre) = add_mset pivot (mset pre)"
    by simp
  have pre: "filter (\<lambda>y. g y = k) pre
               = filter (\<lambda>y. g y = k) (take m pre) @ filter (\<lambda>y. g y = k) (drop m pre)"
    by (metis append_take_drop_id filter_append)
  show "filter (\<lambda>y. g y = k) (take m pre @ pivot # drop m pre) = filter (\<lambda>y. g y = k) (pre @ [pivot])"
  proof (cases "g pivot = k")
    case True
    have "g x \<noteq> k" if "x \<in> set (drop m pre)" for x
      using d [OF that] True by simp
    then have "filter (\<lambda>y. g y = k) (drop m pre) = []"
      by (simp add: filter_empty_conv)
    with True pre show ?thesis by simp
  next
    case False
    with pre show ?thesis by simp
  qed
qed

lemma binarysort_spec:
  fixes g :: "'a \<Rightarrow> 'k::linorder"
  assumes "sorted (map g pre)"
    and "\<forall>x \<in> set pre \<union> set rest. \<forall>y \<in> set pre \<union> set rest. lt x y \<longleftrightarrow> g x < g y"
  shows "sorted (map g (binarysort lt pre rest))
    \<and> mset (binarysort lt pre rest) = mset pre + mset rest
    \<and> (\<forall>k. filter (\<lambda>y. g y = k) (binarysort lt pre rest) = filter (\<lambda>y. g y = k) (pre @ rest))"
  using assms
proof (induction rest arbitrary: pre)
  case Nil
  then show ?case by simp
next
  case (Cons pivot rest)
  define m where "m = bisect lt pivot pre 0 (length pre)"
  define pre' where "pre' = take m pre @ pivot # drop m pre"
  have corr: "\<And>x. x \<in> set pre \<Longrightarrow> lt pivot x \<longleftrightarrow> g pivot < g x"
    using Cons.prems(2) by simp
  have b: "m \<le> length pre \<and> (\<forall>i < m. g (pre ! i) \<le> g pivot)
      \<and> (\<forall>i. m \<le> i \<and> i < length pre \<longrightarrow> g pivot < g (pre ! i))"
    unfolding m_def
    by (rule bisect_spec [where g = g and lt = lt and xs = pre and pivot = pivot and l = 0])
       (use Cons.prems(1) corr in auto)
  then have m: "m \<le> length pre" and low: "\<forall>i < m. g (pre ! i) \<le> g pivot"
    and up: "\<forall>i. m \<le> i \<and> i < length pre \<longrightarrow> g pivot < g (pre ! i)"
    by blast+
  note ins = insert_at_spec [OF Cons.prems(1) m low up]
  have s': "sorted (map g pre')"
    unfolding pre'_def by (rule ins(1))
  have ms': "mset pre' = add_mset pivot (mset pre)"
    unfolding pre'_def by (rule ins(2))
  have f': "filter (\<lambda>y. g y = k) pre' = filter (\<lambda>y. g y = k) (pre @ [pivot])" for k
    unfolding pre'_def by (rule ins(3))
  have set': "set pre' = insert pivot (set pre)"
    using ms' by (metis set_mset_add_mset_insert set_mset_mset)
  have corr': "\<forall>x \<in> set pre' \<union> set rest. \<forall>y \<in> set pre' \<union> set rest. lt x y \<longleftrightarrow> g x < g y"
    using Cons.prems(2) set' by simp
  from Cons.IH [OF s' corr'] have
    IH: "sorted (map g (binarysort lt pre' rest))"
        "mset (binarysort lt pre' rest) = mset pre' + mset rest"
        "\<And>k. filter (\<lambda>y. g y = k) (binarysort lt pre' rest) = filter (\<lambda>y. g y = k) (pre' @ rest)"
    by blast+
  have eq: "binarysort lt pre (pivot # rest) = binarysort lt pre' rest"
    by (simp add: m_def pre'_def Let_def)
  have "filter (\<lambda>y. g y = k) (binarysort lt pre' rest) = filter (\<lambda>y. g y = k) (pre @ pivot # rest)" for k
    using IH(3) [of k] f' [of k] by simp
  with IH(1,2) ms' eq show ?case by simp
qed


lemma run_ascending_spec:
  fixes g :: "'a \<Rightarrow> 'k::linorder"
  assumes "\<forall>x \<in> insert prev (set xs). \<forall>y \<in> insert prev (set xs). lt x y \<longleftrightarrow> g x < g y"
  shows "run_ascending lt prev xs \<le> length xs
    \<and> sorted (map g (prev # take (run_ascending lt prev xs) xs))"
  using assms
proof (induction xs arbitrary: prev)
  case Nil
  then show ?case by simp
next
  case (Cons x xs)
  show ?case
  proof (cases "lt x prev")
    case True
    then show ?thesis by simp
  next
    case False
    with Cons.prems have le: "g prev \<le> g x" by auto
    have "\<forall>a \<in> insert x (set xs). \<forall>b \<in> insert x (set xs). lt a b \<longleftrightarrow> g a < g b"
      using Cons.prems by simp
    from Cons.IH [OF this] have IH: "run_ascending lt x xs \<le> length xs"
      "sorted (map g (x # take (run_ascending lt x xs) xs))"
      by blast+
    from IH(2) le have "sorted (map g (prev # x # take (run_ascending lt x xs) xs))"
      by auto
    with IH(1) False show ?thesis by simp
  qed
qed

lemma run_descending_spec:
  fixes g :: "'a \<Rightarrow> 'k::linorder"
  assumes "\<forall>x \<in> insert prev (set xs). \<forall>y \<in> insert prev (set xs). lt x y \<longleftrightarrow> g x < g y"
  shows "run_descending lt prev xs \<le> length xs
    \<and> sorted_wrt (\<lambda>a b. g b < g a) (prev # take (run_descending lt prev xs) xs)"
  using assms
proof (induction xs arbitrary: prev)
  case Nil
  then show ?case by simp
next
  case (Cons x xs)
  show ?case
  proof (cases "lt x prev")
    case False
    then show ?thesis by simp
  next
    case True
    with Cons.prems have le: "g x < g prev" by auto
    have "\<forall>a \<in> insert x (set xs). \<forall>b \<in> insert x (set xs). lt a b \<longleftrightarrow> g a < g b"
      using Cons.prems by simp
    from Cons.IH [OF this] have IH: "run_descending lt x xs \<le> length xs"
      "sorted_wrt (\<lambda>a b. g b < g a) (x # take (run_descending lt x xs) xs)"
      by blast+
    from IH(2) le have "sorted_wrt (\<lambda>a b. g b < g a) (prev # x # take (run_descending lt x xs) xs)"
      by auto
    with IH(1) True show ?thesis by simp
  qed
qed

lemma strictly_descending_rev:
  fixes g :: "'a \<Rightarrow> 'k::linorder"
  assumes "sorted_wrt (\<lambda>a b. g b < g a) ys"
  shows "sorted (map g (rev ys))"
    and "filter (\<lambda>y. g y = k) (rev ys) = filter (\<lambda>y. g y = k) ys"
proof -
  from assms have "sorted_wrt (\<lambda>a b. g a < g b) (rev ys)"
    by (simp add: sorted_wrt_rev)
  then have "sorted_wrt (\<lambda>a b. g a \<le> g b) (rev ys)"
    by (rule sorted_wrt_mono_rel [rotated]) simp
  then show "sorted (map g (rev ys))"
    by (simp add: sorted_map)
  from assms have "length (filter (\<lambda>y. g y = k) ys) \<le> 1"
  proof (induction ys)
    case Nil
    then show ?case by simp
  next
    case (Cons y ys)
    show ?case
    proof (cases "g y = k")
      case True
      with Cons.prems have "\<forall>z \<in> set ys. g z \<noteq> k" by auto
      then have "filter (\<lambda>y. g y = k) ys = []"
        by (simp add: filter_empty_conv)
      with True show ?thesis by simp
    next
      case False
      with Cons show ?thesis by simp
    qed
  qed
  then have "rev (filter (\<lambda>y. g y = k) ys) = filter (\<lambda>y. g y = k) ys"
    by (cases "filter (\<lambda>y. g y = k) ys") (auto simp: le_Suc_eq)
  then show "filter (\<lambda>y. g y = k) (rev ys) = filter (\<lambda>y. g y = k) ys"
    by (simp add: rev_filter)
qed


lemma count_run_spec:
  fixes g :: "'a \<Rightarrow> 'k::linorder"
  assumes corr: "\<forall>x \<in> set xs. \<forall>y \<in> set xs. lt x y \<longleftrightarrow> g x < g y"
    and cr: "count_run lt xs = (n, descending_run)"
  shows "n \<le> length xs"
    and "sorted (map g (if descending_run then rev (take n xs) else take n xs))"
    and "filter (\<lambda>y. g y = k) (if descending_run then rev (take n xs) else take n xs)
           = filter (\<lambda>y. g y = k) (take n xs)"
proof -
  have conj: "n \<le> length xs
    \<and> sorted (map g (if descending_run then rev (take n xs) else take n xs))
    \<and> filter (\<lambda>y. g y = k) (if descending_run then rev (take n xs) else take n xs)
           = filter (\<lambda>y. g y = k) (take n xs)"
  proof (cases xs)
    case Nil
    with cr show ?thesis by simp
  next
    case (Cons x rest)
    show ?thesis
    proof (cases rest)
      case Nil
      with Cons cr show ?thesis by auto
    next
      case (Cons y zs)
      with \<open>xs = x # rest\<close> have xs: "xs = x # y # zs" by simp
      have corr': "\<forall>a \<in> insert y (set zs). \<forall>b \<in> insert y (set zs). lt a b \<longleftrightarrow> g a < g b"
        using corr xs by simp
      show ?thesis
      proof (cases "lt y x")
        case True
        with corr xs have gt: "g y < g x" by simp
        from True cr xs have n: "n = 2 + run_descending lt y zs" and d: "descending_run"
          by simp_all
        note rd = run_descending_spec [OF corr']
        have r: "run_descending lt y zs \<le> length zs"
          "sorted_wrt (\<lambda>a b. g b < g a) (y # take (run_descending lt y zs) zs)"
          using rd by (rule conjunct1, rule conjunct2)
        have tk: "take n xs = x # y # take (run_descending lt y zs) zs"
          unfolding n xs by simp
        have nl: "n \<le> length xs"
          unfolding n xs using r(1) by simp
        from r(2) gt have "sorted_wrt (\<lambda>a b. g b < g a) (x # y # take (run_descending lt y zs) zs)"
          by auto
        then have sd: "sorted_wrt (\<lambda>a b. g b < g a) (take n xs)"
          by (simp only: tk)
        have "sorted (map g (rev (take n xs)))"
          by (rule strictly_descending_rev(1) [OF sd])
        moreover have "filter (\<lambda>y. g y = k) (rev (take n xs)) = filter (\<lambda>y. g y = k) (take n xs)"
          by (rule strictly_descending_rev(2) [OF sd])
        ultimately show ?thesis
          using d nl by (simp only: if_True simp_thms)
      next
        case False
        with corr xs have le: "g x \<le> g y" by auto
        from False cr xs have n: "n = 2 + run_ascending lt y zs" and d: "\<not> descending_run"
          by simp_all
        note ra = run_ascending_spec [OF corr']
        have r: "run_ascending lt y zs \<le> length zs"
          "sorted (map g (y # take (run_ascending lt y zs) zs))"
          using ra by (rule conjunct1, rule conjunct2)
        have tk: "take n xs = x # y # take (run_ascending lt y zs) zs"
          unfolding n xs by simp
        have nl: "n \<le> length xs"
          unfolding n xs using r(1) by simp
        from r(2) le have "sorted (map g (x # y # take (run_ascending lt y zs) zs))"
          by auto
        then have "sorted (map g (take n xs))"
          by (simp only: tk)
        then show ?thesis
          using d nl by (simp only: if_False simp_thms)
      qed
    qed
  qed
  then show "n \<le> length xs"
    by (rule conjunct1)
  from conj show "sorted (map g (if descending_run then rev (take n xs) else take n xs))"
    by (elim conjE)
  from conj show "filter (\<lambda>y. g y = k) (if descending_run then rev (take n xs) else take n xs)
           = filter (\<lambda>y. g y = k) (take n xs)"
    by (elim conjE)
qed


text \<open>On keys that are totally ordered the ascending sort is the stable sort.\<close>

lemma list_sort_sort_key:
  fixes g :: "'a \<Rightarrow> 'k::linorder"
  assumes corr: "\<forall>x \<in> set xs. \<forall>y \<in> set xs. lt x y \<longleftrightarrow> g x < g y"
  shows "list_sort lt xs = sort_key g xs"
proof (cases "length xs < 2")
  case True
  then have "xs = [] \<or> (\<exists>x. xs = [x])"
    by (cases xs) (auto simp: length_Suc_conv)
  with True show ?thesis by (auto simp: list_sort_def)
next
  case False
  obtain n d where cr: "count_run lt xs = (n, d)"
    by (cases "count_run lt xs")
  define run where "run = (if d then rev (take n xs) else take n xs)"
  note c = count_run_spec [OF corr cr]
  have ls: "list_sort lt xs = binarysort lt run (drop n xs)"
    using False cr by (simp add: list_sort_def run_def)
  have srun: "sorted (map g run)"
    unfolding run_def by (rule c(2))
  have frun: "filter (\<lambda>y. g y = k) run = filter (\<lambda>y. g y = k) (take n xs)" for k
    unfolding run_def by (rule c(3))
  have setrun: "set run = set (take n xs)"
    by (simp add: run_def)
  have msrun: "mset run = mset (take n xs)"
    by (simp add: run_def)
  have sub: "set run \<union> set (drop n xs) \<subseteq> set xs"
    unfolding setrun by (metis append_take_drop_id set_append subset_refl)
  have corr': "\<forall>x \<in> set run \<union> set (drop n xs). \<forall>y \<in> set run \<union> set (drop n xs).
                 lt x y \<longleftrightarrow> g x < g y"
    using corr sub by blast
  note bs = binarysort_spec [OF srun corr']
  have b: "sorted (map g (binarysort lt run (drop n xs)))"
       "mset (binarysort lt run (drop n xs)) = mset run + mset (drop n xs)"
       "\<And>k. filter (\<lambda>y. g y = k) (binarysort lt run (drop n xs))
               = filter (\<lambda>y. g y = k) (run @ drop n xs)"
    using bs by simp_all
  have ms: "mset (list_sort lt xs) = mset xs"
    unfolding ls b(2) msrun by (metis append_take_drop_id mset_append)
  have st: "filter (\<lambda>y. g y = k) (list_sort lt xs) = filter (\<lambda>y. g y = k) xs" for k
  proof -
    have "filter (\<lambda>y. g y = k) (list_sort lt xs)
            = filter (\<lambda>y. g y = k) (take n xs) @ filter (\<lambda>y. g y = k) (drop n xs)"
      unfolding ls b(3) by (simp add: frun)
    also have "\<dots> = filter (\<lambda>y. g y = k) xs"
      by (metis append_take_drop_id filter_append)
    finally show ?thesis .
  qed
  have "sort_key g xs = list_sort lt xs"
  proof (rule properties_for_sort_key)
    show "mset (list_sort lt xs) = mset xs" by (rule ms)
    show "sorted (map g (list_sort lt xs))" unfolding ls by (rule b(1))
    show "filter (\<lambda>x. g k = g x) (list_sort lt xs) = filter (\<lambda>x. g k = g x) xs" for k
      using st [of "g k"] by (simp add: eq_commute)
  qed
  then show ?thesis by simp
qed

text \<open>Whatever the comparison, the sort permutes the list.\<close>

lemma mset_binarysort: "mset (binarysort lt pre rest) = mset pre + mset rest"
proof (induction rest arbitrary: pre)
  case Nil
  then show ?case by simp
next
  case (Cons pivot rest)
  have "mset (take l pre) + mset (drop l pre) = mset pre" for l
    by (metis append_take_drop_id mset_append)
  then show ?case
    by (simp add: Cons.IH Let_def)
qed

lemma mset_list_sort: "mset (list_sort lt xs) = mset xs"
proof -
  have "mset (take n xs) + mset (drop n xs) = mset xs" for n
    by (metis append_take_drop_id mset_append)
  then show ?thesis
    by (auto simp: list_sort_def mset_binarysort split: prod.splits)
qed

lemma py_lt_float_key:
  "x \<noteq> NaN \<Longrightarrow> y \<noteq> NaN \<Longrightarrow> py_lt x y \<longleftrightarrow> float_key x < float_key y"
  by (cases x; cases y) simp_all

lemma py_le_float_key:
  "x \<noteq> NaN \<Longrightarrow> y \<noteq> NaN \<Longrightarrow> py_le x y \<longleftrightarrow> float_key x \<le> float_key y"
  by (cases x; cases y) simp_all

lemma float_key_eq: "float_key x = float_key y \<longleftrightarrow> x = y"
  by (cases x; cases y) simp_all

lemma mset_sorted_reverse: "mset (sorted_reverse f xs) = mset xs"
  by (simp add: sorted_reverse_def mset_list_sort)

text \<open>Without \<open>nan\<close> among the keys, \<open>sorted(xs, key=f, reverse=True)\<close> is the stable sort
  of the reversed list, reversed.\<close>

lemma sorted_reverse_sort_key:
  assumes "\<forall>x \<in> set xs. f x \<noteq> NaN"
  shows "sorted_reverse f xs = rev (sort_key (\<lambda>x. float_key (f x)) (rev xs))"
proof -
  have "list_sort (\<lambda>a b. py_lt (f a) (f b)) (rev xs) = sort_key (\<lambda>x. float_key (f x)) (rev xs)"
    by (rule list_sort_sort_key) (use assms in \<open>simp add: py_lt_float_key\<close>)
  then show ?thesis by (simp add: sorted_reverse_def)
qed


lemma sorted_reverse_descending:
  assumes "\<forall>x \<in> set xs. f x \<noteq> NaN"
  shows "sorted_wrt (\<lambda>a b. py_le (f b) (f a)) (sorted_reverse f xs)"
proof -
  let ?K = "\<lambda>x. float_key (f x)"
  have "sorted (map ?K (sort_key ?K (rev xs)))" by simp
  then have "sorted_wrt (\<lambda>a b. ?K a \<le> ?K b) (sort_key ?K (rev xs))"
    by (simp add: sorted_map)
  then have "sorted_wrt (\<lambda>a b. ?K b \<le> ?K a) (sorted_reverse f xs)"
    by (simp add: sorted_reverse_sort_key [OF assms] sorted_wrt_rev)
  moreover have "set (sorted_reverse f xs) = set xs"
    by (metis mset_sorted_reverse set_mset_mset)
  ultimately show ?thesis
    using assms by (auto simp: py_le_float_key elim!: sorted_wrt_mono_rel [rotated])
qed

lemma sorted_reverse_stable:
  assumes "\<forall>x \<in> set xs. f x \<noteq> NaN"
  shows "filter (\<lambda>y. f y = t) (sorted_reverse f xs) = filter (\<lambda>y. f y = t) xs"
proof -
  let ?K = "\<lambda>x. float_key (f x)"
  have "filter (\<lambda>y. ?K y = float_key t) (sorted_reverse f xs)
          = rev (filter (\<lambda>y. ?K y = float_key t) (sort_key ?K (rev xs)))"
    by (simp add: sorted_reverse_sort_key [OF assms] rev_filter)
  also have "\<dots> = rev (filter (\<lambda>y. ?K y = float_key t) (rev xs))"
    by (simp only: sort_key_stable)
  also have "\<dots> = filter (\<lambda>y. ?K y = float_key t) xs"
    by (simp add: rev_filter)
  finally show ?thesis
    by (simp add: float_key_eq)
qed

lemma take_sorted_dominates:
  assumes "sorted_wrt R xs" "a \<in> set (take n xs)" "b \<in> set (drop n xs)"
  shows "R a b"
proof -
  have "sorted_wrt R (take n xs @ drop n xs)" using assms(1) by simp
  then show ?thesis using assms(2,3) unfolding sorted_wrt_append by blast
qed

text \<open>
  C8, as the code has it. When no elapsed time is \<open>nan\<close>, the slowest tests are the first
  five of the test cases of all suites put in descending order of elapsed time: the
  selection is in descending order, has five elements or all of them when there are
  fewer, no test case left out is slower than one selected, and test cases with equal
  times keep their order of encounter.
\<close>

theorem C8_slowest_tests_without_nan:
  assumes "slowest_tests rs = Some sl" and "no_nan (all_testcases rs)"
  shows "sl = take 5 (sorted_reverse case_time (all_testcases rs))
    \<and> mset (sorted_reverse case_time (all_testcases rs)) = mset (all_testcases rs)
    \<and> length sl = min 5 (length (all_testcases rs))
    \<and> sorted_wrt (\<lambda>a b. py_le (case_time b) (case_time a)) sl
    \<and> (\<forall>a \<in> set sl. \<forall>b \<in> set (drop 5 (sorted_reverse case_time (all_testcases rs))).
          py_le (case_time b) (case_time a))
    \<and> (\<forall>t. filter (\<lambda>c. case_time c = t) (sorted_reverse case_time (all_testcases rs))
            = filter (\<lambda>c. case_time c = t) (all_testcases rs))
    \<and> (\<forall>t. prefix (filter (\<lambda>c. case_time c = t) sl) (filter (\<lambda>c. case_time c = t) (all_testcases rs)))"
proof -
  let ?S = "sorted_reverse case_time (all_testcases rs)"
  from assms(2) have nn: "\<forall>x \<in> set (all_testcases rs). case_time x \<noteq> NaN"
    by (simp add: no_nan_def list_all_iff)
  from assms(1) have sl: "sl = take 5 ?S"
    by (simp add: slowest_tests_def split: if_splits)
  have ms: "mset ?S = mset (all_testcases rs)"
    by (rule mset_sorted_reverse)
  then have len: "length ?S = length (all_testcases rs)"
    by (rule mset_eq_length)
  have desc: "sorted_wrt (\<lambda>a b. py_le (case_time b) (case_time a)) ?S"
    by (rule sorted_reverse_descending [OF nn])
  have "sorted_wrt (\<lambda>a b. py_le (case_time b) (case_time a)) (take 5 ?S @ drop 5 ?S)"
    using desc by simp
  then have d5: "sorted_wrt (\<lambda>a b. py_le (case_time b) (case_time a)) (take 5 ?S)"
    unfolding sorted_wrt_append by blast
  have dom: "\<forall>a \<in> set (take 5 ?S). \<forall>b \<in> set (drop 5 ?S). py_le (case_time b) (case_time a)"
    using take_sorted_dominates [OF desc] by blast
  have st: "filter (\<lambda>c. case_time c = t) ?S = filter (\<lambda>c. case_time c = t) (all_testcases rs)" for t
    by (rule sorted_reverse_stable [OF nn])
  have pre: "prefix (filter (\<lambda>c. case_time c = t) (take 5 ?S)) (filter (\<lambda>c. case_time c = t) (all_testcases rs))" for t
  proof -
    have "prefix (take 5 ?S) ?S" by (rule take_is_prefix)
    then have "prefix (filter (\<lambda>c. case_time c = t) (take 5 ?S)) (filter (\<lambda>c. case_time c = t) ?S)"
      by (rule filter_mono_prefix)
    then show ?thesis by (simp only: st)
  qed
  show ?thesis
    using sl len d5 dom pre ms st by simp
qed

theorem C8_slowest_tests_without_nan_witness:
  "no_nan (all_testcases results_times)
   \<and> map case_time (the (slowest_tests results_spec_times))
       = [Float (1 / 2), Float (3 / 10), Float (1 / 10)]
   \<and> map case_name (the (slowest_tests results_times)) = [''b'', ''d'', ''c'', ''a'', ''e'']
   \<and> the (slowest_tests results_times)
       = take 5 (sorted_reverse case_time (all_testcases results_times))
   \<and> sorted_wrt (\<lambda>a b. py_le (case_time b) (case_time a)) (the (slowest_tests results_times))"
proof -
  have ne: "slowest_tests results_times \<noteq> None"
    by code_simp
  then have h: "slowest_tests results_times = Some (the (slowest_tests results_times))"
    by simp
  have nn: "no_nan (all_testcases results_times)"
    by code_simp
  have 1: "map case_time (the (slowest_tests results_spec_times))
             = [Float (1 / 2), Float (3 / 10), Float (1 / 10)]"
    by code_simp
  have 2: "map case_name (the (slowest_tests results_times)) = [''b'', ''d'', ''c'', ''a'', ''e'']"
    by code_simp
  from C8_slowest_tests_without_nan [OF h nn] nn 1 2 show ?thesis by blast
qed

text \<open>
  The file whose test cases have the times 0.3, \<open>nan\<close> and 0.5 parses, and its slowest
  tests come in this same order: the test case of 0.5 seconds stands after the one of 0.3
  seconds, so the selection is not in descending order.
\<close>

theorem C8_nan_not_descending:
  "parse_junit_xml ex_int ex_float (Some doc_nan) \<noteq> None
   \<and> map case_name (the (slowest_tests results_nan)) = [''a'', ''b'', ''c'']
   \<and> map case_time (the (slowest_tests results_nan)) = [Float (3 / 10), NaN, Float (1 / 2)]
   \<and> out_of_order (the (slowest_tests results_nan))
   \<and> \<not> descending (the (slowest_tests results_nan))"
  by code_simp

section \<open>Readiness\<close>

lemma check_health_Ready:
  "check_health resp = Ready \<longleftrightarrow> http_success resp \<and> reports_healthy resp \<and> model_loaded resp"
  by (cases resp)
     (auto simp: http_success_def reports_healthy_def model_loaded_def body_field_def
           split: body.splits json.splits option.splits)

lemma wait_for_app_Ready:
  "wait_for_app h attempts = AppReady \<Longrightarrow> \<exists>i \<in> set attempts. check_health (h i) = Ready"
  by (induction attempts) (auto split: check.splits)

lemma wait_for_app_never_Ready:
  "\<forall>i \<in> set attempts. check_health (h i) \<noteq> Ready \<Longrightarrow> wait_for_app h attempts \<noteq> AppReady"
  by (induction attempts) (auto split: check.splits)

lemma start_test_container_True:
  "fst (start_test_container e r) \<Longrightarrow> wait_for_app (health e) [0..<30] = AppReady"
  by (auto simp: start_test_container_def Let_def split: if_splits poll_result.splits)

text \<open>
  \<open>start_test_container\<close> returns \<open>True\<close> only when one of its thirty requests was
  answered with status 200, \<open>status\<close> \<open>"healthy"\<close> and a true \<open>model_loaded\<close>; when every
  answer lacks one of the three it returns \<open>False\<close>.
\<close>

lemma start_test_container_ready_only_if:
  assumes "fst (start_test_container e r)"
  shows "\<exists>i < 30. http_success (health e i) \<and> reports_healthy (health e i) \<and> model_loaded (health e i)"
proof -
  from assms have "wait_for_app (health e) [0..<30] = AppReady"
    by (rule start_test_container_True)
  then obtain i where "i \<in> set [0..<30]" "check_health (health e i) = Ready"
    by (blast dest: wait_for_app_Ready)
  then show ?thesis by (auto simp: check_health_Ready)
qed

lemma start_test_container_not_loaded:
  assumes "\<forall>i < 30. \<not> model_loaded (health e i)"
  shows "\<not> fst (start_test_container e r)"
  using assms start_test_container_ready_only_if [of e r] by blast

lemma fixture_wait_Cons:
  "fixture_wait h n (i # rest) =
     (if http_success (h i) then Inr ()
      else if i = n - 1 then Inl PyException
      else fixture_wait h n rest)"
  by (simp add: http_success_def)

lemma fixture_wait_upt:
  "k \<le> n \<Longrightarrow> fixture_wait h n [k..<n] =
     (if \<exists>i. k \<le> i \<and> i < n \<and> http_success (h i) then Inr ()
      else if k < n then Inl PyException else Inr ())"
proof (induction "n - k" arbitrary: k)
  case 0
  then show ?case by simp
next
  case (Suc d)
  define P where "P j \<longleftrightarrow> (\<exists>i. j \<le> i \<and> i < n \<and> http_success (h i))" for j
  from Suc have kn: "k < n" and d: "d = n - Suc k" and le: "Suc k \<le> n"
    by simp_all
  from kn have upt: "[k..<n] = k # [Suc k..<n]"
    by (simp add: upt_conv_Cons)
  have IH: "fixture_wait h n [Suc k..<n] =
     (if P (Suc k) then Inr () else if Suc k < n then Inl PyException else Inr ())"
    unfolding P_def by (rule Suc.hyps(1) [OF d le])
  have goal: "fixture_wait h n [k..<n] = (if P k then Inr () else Inl PyException)"
  proof (cases "http_success (h k)")
    case True
    with kn have "P k"
      unfolding P_def by blast
    with True upt show ?thesis
      by (simp only: fixture_wait_Cons if_True)
  next
    case False
    have ex: "P k \<longleftrightarrow> P (Suc k)"
      unfolding P_def using False by (metis Suc_leD Suc_leI le_neq_implies_less)
    show ?thesis
    proof (cases "k = n - 1")
      case True
      with kn have "\<not> P (Suc k)"
        unfolding P_def by auto
      with ex have "\<not> P k"
        by simp
      with False True upt show ?thesis
        by (simp add: fixture_wait_Cons del: fixture_wait.simps)
    next
      case neq: False
      with kn have "Suc k < n" by simp
      with IH ex False neq upt show ?thesis
        by (simp add: fixture_wait_Cons del: fixture_wait.simps)
    qed
  qed
  with kn show ?case
    unfolding P_def by auto
qed

text \<open>
  The fixture of tests/conftest.py hands the container over exactly when one of its
  thirty requests was answered with status 200, whatever the body says.
\<close>

lemma docker_container_iff:
  "docker_container h = Inr () \<longleftrightarrow> (\<exists>i < 30. http_success (h i))"
  using fixture_wait_upt [of 0 30 h] by (auto simp: docker_container_def)

text \<open>
  C5. The container is declared ready only when a response has status 200 and its body
  reports the model as loaded. The fixture \<open>docker_container\<close> of tests/conftest.py does
  otherwise: when the service answers with status 200 and
  \<^verbatim>\<open>{"status": "healthy", "model_loaded": false}\<close>, the loop of \<open>start_test_container\<close>
  ends not ready after its thirty attempts, and the fixture hands the container to the
  tests at the first.
\<close>

theorem C5_fixture_ready_without_model:
  "http_success (health_not_loaded 0)
   \<and> reports_healthy (health_not_loaded 0)
   \<and> \<not> model_loaded (health_not_loaded 0)
   \<and> wait_for_app health_not_loaded [0..<30] = NotReady
   \<and> docker_container health_not_loaded = Inr ()"
  by code_simp

section \<open>Runs of the test runner\<close>

lemma suites_run_simps [simp]:
  "suites_run [] = []"
  "suites_run (ev # evs) = (case ev of Subprocess c \<Rightarrow> [c] | _ \<Rightarrow> []) @ suites_run evs"
  "suites_run (xs @ ys) = suites_run xs @ suites_run ys"
  by (auto simp: suites_run_def split: event.splits)

lemma suites_run_health [simp]: "suites_run (map Http_health xs) = []"
  by (induction xs) (auto simp: suites_run_def)

lemma cleanup_calls_simps [simp]:
  "cleanup_calls [] = 0"
  "cleanup_calls (ev # evs) = (if ev = Call_cleanup_resources then 1 else 0) + cleanup_calls evs"
  "cleanup_calls (xs @ ys) = cleanup_calls xs + cleanup_calls ys"
  by (auto simp: cleanup_calls_def)

lemma cleanup_calls_health [simp]: "cleanup_calls (map Http_health xs) = 0"
  by (induction xs) (auto simp: cleanup_calls_def)

lemmas runner_defs =
  init_runner_def log_event_def setup_docker_def build_docker_image_def cleanup_container_def
  start_test_container_def set_outcome_def run_category_tests_def run_unit_tests_def
  run_integration_tests_def run_api_tests_def run_docker_tests_def set_overall_def
  cleanup_resources_def

lemma run_all_setup_failure:
  assumes "\<not> setup_ok e"
  shows "\<exists>r. run_all_tests e (init_runner c v) = (False, r)
     \<and> results r = results (init_runner c v) \<and> suites_run (trace r) = []
     \<and> cleanup_calls (trace r) = 0 \<and> cleanup r = c"
  using assms
  by (auto simp: setup_ok_def run_all_tests_def runner_defs Let_def split: poll_result.splits)

text \<open>
  What holds of every run with mode \<open>all\<close> whose setup fails: the exit code is 1, no
  suite is run and the four categories stay \<open>not_run\<close>, \<open>cleanup_resources\<close> is called
  once; the \<open>overall\<close> entry stays \<open>not_run\<close> and the report's banner is \<open>PASSED\<close>.
\<close>

lemma main_all_setup_failure:
  assumes "\<not> setup_ok e"
  shows "fst (main ModeAll nc v e) = 1
    \<and> (\<forall>c. run_status (cat_results (results (snd (snd (main ModeAll nc v e)))) c) = NotRun)
    \<and> overall_status (results (snd (snd (main ModeAll nc v e)))) = NotRun
    \<and> suites_run (trace (snd (snd (main ModeAll nc v e)))) = []
    \<and> cleanup_calls (trace (snd (snd (main ModeAll nc v e)))) = 1
    \<and> banner (fst (snd (main ModeAll nc v e))) = ''PASSED''"
proof -
  from run_all_setup_failure[OF assms, of "\<not> nc" v] obtain r where
    r: "run_all_tests e (init_runner (\<not> nc) v) = (False, r)"
      "results r = results (init_runner (\<not> nc) v)" "suites_run (trace r) = []"
      "cleanup_calls (trace r) = 0" "cleanup r = (\<not> nc)"
    by auto
  show ?thesis
    using r
    by (simp add: main_def Let_def log_event_def cleanup_resources_def cleanup_container_def
        generate_report_def items_def init_runner_def)
qed

text \<open>
  C6. A run with mode \<open>all\<close> whose setup fails runs no suite, records the overall status
  failed and calls the cleanup once. For the run in which the container never becomes
  ready: the exit code is 1, no suite runs, the four categories stay \<open>not_run\<close> and
  \<open>cleanup_resources\<close> is called once, but the recorded overall status is \<open>not_run\<close>,
  not failed, and the report's banner is \<open>PASSED\<close>.
\<close>

theorem C6_setup_failure_overall_status_not_recorded:
  "\<not> setup_ok env_never_ready
   \<and> fst (main ModeAll False False env_never_ready) = 1
   \<and> map (\<lambda>c. run_status (cat_results (results (snd (snd (main ModeAll False False env_never_ready)))) c))
         all_categories = [NotRun, NotRun, NotRun, NotRun]
   \<and> suites_run (trace (snd (snd (main ModeAll False False env_never_ready)))) = []
   \<and> cleanup_calls (trace (snd (snd (main ModeAll False False env_never_ready)))) = 1
   \<and> overall_status (results (snd (snd (main ModeAll False False env_never_ready)))) = NotRun
   \<and> overall_status (results (snd (snd (main ModeAll False False env_never_ready)))) \<noteq> RunFailed
   \<and> banner (fst (snd (main ModeAll False False env_never_ready))) = ''PASSED''"
  by code_simp

text \<open>
  C7. With mode \<open>unit\<close> the runner starts the unit test subprocess, writes the report and
  calls the cleanup, which without a Docker client reaches no Docker call: nothing sets
  Docker up, builds the image or starts the container, and the only suite run is the
  unit suite.
\<close>

theorem C7_unit_mode_never_uses_docker:
  "trace (snd (snd (main ModeUnit no_cleanup v e)))
     = [Subprocess CatUnit, Call_generate_report, Call_save_report, Call_cleanup_resources]
       @ (if no_cleanup then [] else [Call_cleanup_container])
   \<and> list_all (\<lambda>ev. \<not> uses_docker ev) (trace (snd (snd (main ModeUnit no_cleanup v e))))
   \<and> suites_run (trace (snd (snd (main ModeUnit no_cleanup v e)))) = [CatUnit]"
proof -
  have "trace (snd (snd (main ModeUnit no_cleanup v e)))
     = [Subprocess CatUnit, Call_generate_report, Call_save_report, Call_cleanup_resources]
       @ (if no_cleanup then [] else [Call_cleanup_container])"
    by (simp add: main_def run_specific_tests_def runner_defs Let_def split: proc_result.splits)
  then show ?thesis by simp
qed

theorem C7_unit_mode_never_uses_docker_witness:
  "trace (snd (snd (main ModeUnit False True env_no_docker)))
     = [Subprocess CatUnit, Call_generate_report, Call_save_report, Call_cleanup_resources,
        Call_cleanup_container]
   \<and> list_all (\<lambda>ev. \<not> uses_docker ev) (trace (snd (snd (main ModeUnit False True env_no_docker))))
   \<and> suites_run (trace (snd (snd (main ModeUnit False True env_no_docker)))) = [CatUnit]"
  using C7_unit_mode_never_uses_docker [of False True env_no_docker] by simp

section \<open>The report of the runner\<close>











end
